theory Spec2Isabelle
  imports Main "HOL-Library.Word" "HOL-Library.List_Lexorder"
begin

unbundle bit_operations_syntax

section \<open>Bytes and the timestamp key encoding\<close>

text \<open>
  A Go \<^verbatim>\<open>[]byte\<close> is a list of 8-bit words. A Go \<^verbatim>\<open>string\<close> is an immutable byte
  sequence and the conversions \<^verbatim>\<open>[]byte(s)\<close> and \<^verbatim>\<open>string(b)\<close> copy the bytes, so exchange
  names, pair names and trade identifiers are byte lists too. The order of
  \<^verbatim>\<open>bytes.Compare\<close> is the lexicographic order on lists of unsigned bytes, where a proper
  prefix is smaller: the order \<open>HOL-Library.List_Lexorder\<close> gives to lists.
\<close>

type_synonym byte = "8 word"
type_synonym bytes = "byte list"

definition MAX_GET_TRADE_HISTORY :: "64 word" where
  "MAX_GET_TRADE_HISTORY = 3 * 86400000"

text \<open>\<^verbatim>\<open>binary.BigEndian.PutUint64\<close> into a fresh 8-byte slice.\<close>

definition uint64ToBytes :: "64 word \<Rightarrow> bytes" where
  "uint64ToBytes u =
     [ucast (drop_bit 56 u), ucast (drop_bit 48 u), ucast (drop_bit 40 u), ucast (drop_bit 32 u),
      ucast (drop_bit 24 u), ucast (drop_bit 16 u), ucast (drop_bit 8 u), ucast u]"

text \<open>
  \<^verbatim>\<open>binary.BigEndian.Uint64\<close> reads the first eight bytes and panics on a shorter slice
  (\<open>None\<close>).
\<close>

fun bytesToUint64 :: "bytes \<Rightarrow> 64 word option" where
  "bytesToUint64 (b0 # b1 # b2 # b3 # b4 # b5 # b6 # b7 # _) =
     Some (ucast b7 OR push_bit 8 (ucast b6) OR push_bit 16 (ucast b5) OR push_bit 24 (ucast b4)
       OR push_bit 32 (ucast b3) OR push_bit 40 (ucast b2) OR push_bit 48 (ucast b1)
       OR push_bit 56 (ucast b0))"
| "bytesToUint64 _ = None"

text \<open>
  The loop of \<^verbatim>\<open>isTheSame\<close> after the length test; the index \<^verbatim>\<open>b[ix]\<close> is in range
  there because the lengths are equal.
\<close>

fun same_bytes :: "bytes \<Rightarrow> bytes \<Rightarrow> bool" where
  "same_bytes (v # a) (w # b) = (if w \<noteq> v then False else same_bytes a b)"
| "same_bytes _ _ = True"

definition isTheSame :: "bytes \<Rightarrow> bytes \<Rightarrow> bool" where
  "isTheSame a b = (if length a \<noteq> length b then False else same_bytes a b)"

section \<open>The storage engine\<close>

text \<open>
  The ledger sits on the ordered key-value engine \<^verbatim>\<open>github.com/boltdb/bolt\<close>. A bucket
  holds its keys in ascending byte order; under a key is either a value or a nested bucket.
  A bucket is modelled as the list of its entries in cursor order. A cursor position is the
  list of the entries from that position on: \<^verbatim>\<open>First\<close> is the whole list, \<^verbatim>\<open>Next\<close> its
  tail, and the empty list stands for the \<^verbatim>\<open>nil\<close> key at the end.
\<close>

datatype entry = Val bytes | Sub "(bytes \<times> entry) list"

type_synonym bucket = "(bytes \<times> entry) list"

datatype error =
    ErrBucketNameRequired
  | ErrIncompatibleValue
  | ErrKeyRequired
  | ErrKeyTooLarge
  | ErrValueTooLarge
  | ErrEngineIO
  | ErrJSON
  | ErrorString string

text \<open>
  A function that ends in a Go panic (a method called on a \<^verbatim>\<open>nil\<close> bucket,
  \<^verbatim>\<open>log.Panic\<close>) has the outcome \<open>Panic\<close>.
\<close>

datatype 'a outcome = Panic | Done 'a

definition MaxKeySize :: nat where
  "MaxKeySize = 32768"

definition MaxValueSize :: nat where
  "MaxValueSize = 2147483646"

text \<open>A cursor hands out a \<^verbatim>\<open>nil\<close> value for a key that holds a nested bucket.\<close>

fun cursor_value :: "entry \<Rightarrow> bytes" where
  "cursor_value (Val v) = v"
| "cursor_value (Sub _) = []"

fun is_bucket :: "entry \<Rightarrow> bool" where
  "is_bucket (Sub _) = True"
| "is_bucket (Val _) = False"

text \<open>\<^verbatim>\<open>Cursor.Seek\<close>: the first position whose key is not below the sought key.\<close>

definition Seek :: "bytes \<Rightarrow> bucket \<Rightarrow> bucket" where
  "Seek key b = dropWhile (\<lambda>(k, _). k < key) b"

text \<open>\<^verbatim>\<open>Cursor.Last\<close>.\<close>

definition Last :: "bucket \<Rightarrow> (bytes \<times> entry) option" where
  "Last b = (if b = [] then None else Some (last b))"

text \<open>The entry exactly under a key, found by a seek as the engine does.\<close>

definition bucket_get :: "bytes \<Rightarrow> bucket \<Rightarrow> entry option" where
  "bucket_get key b =
     (case Seek key b of
        [] \<Rightarrow> None
      | (k, e) # _ \<Rightarrow> if k = key then Some e else None)"

text \<open>Writing an entry at its place in the key order, replacing the one under the same key.\<close>

fun bucket_put :: "bytes \<Rightarrow> entry \<Rightarrow> bucket \<Rightarrow> bucket" where
  "bucket_put key e [] = [(key, e)]"
| "bucket_put key e ((k, e') # b) =
     (if k < key then (k, e') # bucket_put key e b
      else if k = key then (key, e) # b
      else (key, e) # (k, e') # b)"

fun bucket_del :: "bytes \<Rightarrow> bucket \<Rightarrow> bucket" where
  "bucket_del key [] = []"
| "bucket_del key ((k, e') # b) =
     (if k < key then (k, e') # bucket_del key b
      else if k = key then b
      else (k, e') # b)"

text \<open>
  \<^verbatim>\<open>Bucket.Put\<close> refuses an empty key, a key or a value beyond the engine's size limits, and
  a key that holds a nested bucket.
\<close>

definition Put :: "bytes \<Rightarrow> bytes \<Rightarrow> bucket \<Rightarrow> error + bucket" where
  "Put key val b =
     (if key = [] then Inl ErrKeyRequired
      else if MaxKeySize < length key then Inl ErrKeyTooLarge
      else if MaxValueSize < length val then Inl ErrValueTooLarge
      else case bucket_get key b of
             Some (Sub _) \<Rightarrow> Inl ErrIncompatibleValue
           | _ \<Rightarrow> Inr (bucket_put key (Val val) b))"

text \<open>
  \<^verbatim>\<open>Bucket.Delete\<close> seeks to the key and refuses when the entry at the seek position is a
  nested bucket; a key that is absent is no error.
\<close>

definition Delete :: "bytes \<Rightarrow> bucket \<Rightarrow> error + bucket" where
  "Delete key b =
     (case Seek key b of
        (_, Sub _) # _ \<Rightarrow> Inl ErrIncompatibleValue
      | _ \<Rightarrow> Inr (bucket_del key b))"

text \<open>
  \<^verbatim>\<open>Bucket.CreateBucketIfNotExists\<close> returns the nested bucket under the name, creating an
  empty one when the name is free. The model returns the nested bucket together with the
  parent that now holds it.
\<close>

definition CreateBucketIfNotExists :: "bytes \<Rightarrow> bucket \<Rightarrow> error + (bucket \<times> bucket)" where
  "CreateBucketIfNotExists name b =
     (if name = [] then Inl ErrBucketNameRequired
      else case bucket_get name b of
             Some (Sub child) \<Rightarrow> Inr (child, b)
           | Some (Val _) \<Rightarrow> Inl ErrIncompatibleValue
           | None \<Rightarrow> Inr ([], bucket_put name (Sub []) b))"

text \<open>
  A nested bucket handle writes through to its parent; in the model the changed child is
  put back under its name.
\<close>

definition put_sub :: "bytes \<Rightarrow> bucket \<Rightarrow> bucket \<Rightarrow> bucket" where
  "put_sub name child parent = bucket_put name (Sub child) parent"

text \<open>
  The store file of \<^verbatim>\<open>NewBoltStorage\<close> with its three top-level buckets
  \<^verbatim>\<open>intermediate_tx\<close>, \<^verbatim>\<open>pending_intermediate_tx\<close> and \<^verbatim>\<open>trade_history\<close>, which the
  constructor creates before it returns the storage.
\<close>

record db =
  INTERMEDIATE_TX :: bucket
  PENDING_INTERMEDIATE_TX :: bucket
  TRADE_HISTORY :: bucket

text \<open>
  \<^verbatim>\<open>DB.Update\<close> runs the closure in a read-write transaction. When the closure returns an
  error the transaction is rolled back and the error returned; otherwise the transaction is
  committed, and a commit that fails (\<open>commit\<close>, the engine's answer, is not \<open>None\<close>)
  leaves the file as it was and returns the engine's error. The closure also returns the
  values \<open>v\<close> it left in the variables it captured, which survive a rollback.
\<close>

definition Update ::
  "error option \<Rightarrow> (db \<Rightarrow> error option \<times> 'v \<times> db) \<Rightarrow> db \<Rightarrow> error option \<times> 'v \<times> db" where
  "Update commit fn d =
     (case fn d of
        (Some err, v, _) \<Rightarrow> (Some err, v, d)
      | (None, v, d') \<Rightarrow>
          (case commit of
             Some err \<Rightarrow> (Some err, v, d)
           | None \<Rightarrow> (None, v, d')))"

text \<open>\<^verbatim>\<open>DB.View\<close> runs the closure in a read-only transaction and returns its error.\<close>

definition View :: "(db \<Rightarrow> error option \<times> 'v) \<Rightarrow> db \<Rightarrow> error option \<times> 'v" where
  "View fn d = fn d"

section \<open>Records and their encodings\<close>

text \<open>
  Modelled from the spec: the declaration of \<^verbatim>\<open>common.TradeHistory\<close> (package
  \<^verbatim>\<open>common\<close>) is missing. A trade-history record carries the external trade identifier, the millisecond timestamp
  and the trade fields (price, volume, side), which are kept as one opaque component.
\<close>

record 'p TradeHistory =
  ID :: bytes
  Timestamp :: "64 word"
  Fields :: 'p

text \<open>
  \<^verbatim>\<open>common.AllTradeHistory\<close>: the capture timestamp (the field \<^verbatim>\<open>Timestamp\<close>, here
  \<open>CaptureTimestamp\<close> to keep it apart from the timestamp of a record) and, per exchange and
  per pair, the records. The \<^verbatim>\<open>Data\<close> that \<^verbatim>\<open>GetTradeHistory\<close> builds is a Go map of maps.
\<close>

record 'p AllTradeHistory =
  CaptureTimestamp :: "64 word"
  Data :: "bytes \<rightharpoonup> (bytes \<rightharpoonup> 'p TradeHistory list)"

text \<open>
  Modelled from the spec: the declarations of \<^verbatim>\<open>common.ActivityID\<close> (type \<open>'id\<close>) and
  \<^verbatim>\<open>common.TXEntry\<close> (type \<open>'tx\<close>) are missing, as is \<^verbatim>\<open>ActivityID.ToBytes\<close>, the
  fixed-width binary encoding of an identifier; \<^verbatim>\<open>json.Marshal\<close> and \<^verbatim>\<open>json.Unmarshal\<close>
  belong to the Go library. They are parameters of the model. A marshaller returns the
  error or the bytes; an unmarshaller returns its error together with the value it leaves
  in a target that started as the zero value.
\<close>

record ('id, 'tx, 'p) codec =
  marshal_id :: "'id \<Rightarrow> error + bytes"
  unmarshal_id :: "bytes \<Rightarrow> error option \<times> 'id"
  ToBytes :: "'id \<Rightarrow> bytes"
  marshal_tx :: "'tx \<Rightarrow> error + bytes"
  unmarshal_tx :: "bytes \<Rightarrow> error option \<times> 'tx"
  zero_tx :: "'tx"
  marshal_th :: "'p TradeHistory \<Rightarrow> error + bytes"
  unmarshal_th :: "bytes \<Rightarrow> error option \<times> 'p TradeHistory"

section \<open>The ledger operations\<close>

subsection \<open>Trade history: range query\<close>

definition range_msg :: string where
  "range_msg = ''Time range is too broad, it must be smaller or equal to 3 days (miliseconds)''"

text \<open>
  The innermost loop of \<^verbatim>\<open>GetTradeHistory\<close>, from a cursor position of the pair bucket:
  it runs while there is a key and the key is at most \<open>maxKey\<close> (the source's
  \<^verbatim>\<open>max\<close>), and appends the decoded value; the error of \<^verbatim>\<open>json.Unmarshal\<close> is dropped.
\<close>

fun scan_pair ::
  "('id, 'tx, 'p) codec \<Rightarrow> bytes \<Rightarrow> bucket \<Rightarrow> 'p TradeHistory list \<Rightarrow> 'p TradeHistory list" where
  "scan_pair c maxKey [] pairsHistory = pairsHistory"
| "scan_pair c maxKey ((pairKey, history) # rest) pairsHistory =
     (if pairKey \<le> maxKey
      then scan_pair c maxKey rest (pairsHistory @ [snd (unmarshal_th c (cursor_value history))])
      else pairsHistory)"

text \<open>
  The middle loop, over the keys of one exchange bucket: it runs while the key holds a
  nested bucket (\<^verbatim>\<open>value == nil\<close>) and stops at the first key that does not.
\<close>

fun scan_exchange ::
  "('id, 'tx, 'p) codec \<Rightarrow> bytes \<Rightarrow> bytes \<Rightarrow> bucket \<Rightarrow> (bytes \<rightharpoonup> 'p TradeHistory list) \<Rightarrow>
     (bytes \<rightharpoonup> 'p TradeHistory list)" where
  "scan_exchange c minKey maxKey [] exchangeHistory = exchangeHistory"
| "scan_exchange c minKey maxKey ((key, Val _) # rest) exchangeHistory = exchangeHistory"
| "scan_exchange c minKey maxKey ((key, Sub pairBk) # rest) exchangeHistory =
     scan_exchange c minKey maxKey rest
       (exchangeHistory(key \<mapsto> scan_pair c maxKey (Seek minKey pairBk) []))"

text \<open>The outer loop, over the keys of the trade-history bucket.\<close>

fun scan_history ::
  "('id, 'tx, 'p) codec \<Rightarrow> bytes \<Rightarrow> bytes \<Rightarrow> bucket \<Rightarrow>
     (bytes \<rightharpoonup> (bytes \<rightharpoonup> 'p TradeHistory list)) \<Rightarrow>
     (bytes \<rightharpoonup> (bytes \<rightharpoonup> 'p TradeHistory list))" where
  "scan_history c minKey maxKey [] data = data"
| "scan_history c minKey maxKey ((k, Val _) # rest) data = data"
| "scan_history c minKey maxKey ((k, Sub exchangeBk) # rest) data =
     scan_history c minKey maxKey rest
       (data(k \<mapsto> scan_exchange c minKey maxKey exchangeBk Map.empty))"

text \<open>
  \<^verbatim>\<open>GetTradeHistory\<close>; \<open>now\<close> is the value of \<^verbatim>\<open>common.GetTimestamp()\<close> at the call. The
  subtraction is the unsigned 64-bit one.
\<close>

definition GetTradeHistory ::
  "('id, 'tx, 'p) codec \<Rightarrow> 64 word \<Rightarrow> db \<Rightarrow> 64 word \<Rightarrow> 64 word \<Rightarrow>
     'p AllTradeHistory \<times> error option" where
  "GetTradeHistory c now d fromTime toTime =
     (let result = \<lparr>CaptureTimestamp = now, Data = Map.empty\<rparr> in
      if MAX_GET_TRADE_HISTORY < toTime - fromTime
      then (result, Some (ErrorString range_msg))
      else
        let minKey = uint64ToBytes fromTime;
            maxKey = uint64ToBytes toTime;
            (err, data) = View (\<lambda>d. (None, scan_history c minKey maxKey (TRADE_HISTORY d) Map.empty)) d
        in (result\<lparr>Data := data\<rparr>, err))"

subsection \<open>Trade history: storing and the last identifier\<close>

text \<open>
  The innermost loop of \<^verbatim>\<open>StoreTradeHistory\<close> on a pair bucket that is not \<^verbatim>\<open>nil\<close>.
  A failed \<^verbatim>\<open>json.Marshal\<close> is logged and leaves \<^verbatim>\<open>dataJSON\<close> \<^verbatim>\<open>nil\<close>; the result of
  \<^verbatim>\<open>Put\<close> is dropped, so a refused write leaves the bucket as it was.
\<close>

fun store_records :: "('id, 'tx, 'p) codec \<Rightarrow> 'p TradeHistory list \<Rightarrow> bucket \<Rightarrow> bucket" where
  "store_records c [] pairBk = pairBk"
| "store_records c (history # rest) pairBk =
     (let idBytes = uint64ToBytes (Timestamp history);
          dataJSON = (case marshal_th c history of Inl _ \<Rightarrow> [] | Inr js \<Rightarrow> js)
      in store_records c rest
           (case Put idBytes dataJSON pairBk of Inl _ \<Rightarrow> pairBk | Inr pairBk' \<Rightarrow> pairBk'))"

text \<open>
  The loop over the pairs of one exchange. When the pair bucket cannot be created the error
  is logged and \<^verbatim>\<open>pairBk\<close> is \<^verbatim>\<open>nil\<close>: the first \<^verbatim>\<open>pairBk.Put\<close> then panics, and with no
  record to store the loop goes on. The entries of the Go map are taken in the order the
  \<^verbatim>\<open>range\<close> visits them.
\<close>

fun store_pairs ::
  "('id, 'tx, 'p) codec \<Rightarrow> (bytes \<times> 'p TradeHistory list) list \<Rightarrow> bucket \<Rightarrow> bucket outcome" where
  "store_pairs c [] exchangeBk = Done exchangeBk"
| "store_pairs c ((pair, pairHistory) # rest) exchangeBk =
     (case CreateBucketIfNotExists pair exchangeBk of
        Inl _ \<Rightarrow> if pairHistory = [] then store_pairs c rest exchangeBk else Panic
      | Inr (pairBk, exchangeBk') \<Rightarrow>
          store_pairs c rest (put_sub pair (store_records c pairHistory pairBk) exchangeBk'))"

text \<open>
  The loop over the exchanges. When the exchange bucket cannot be created the error is
  logged and \<^verbatim>\<open>exchangeBk\<close> is \<^verbatim>\<open>nil\<close>: the first
  \<^verbatim>\<open>exchangeBk.CreateBucketIfNotExists\<close> then panics.
\<close>

fun store_exchanges ::
  "('id, 'tx, 'p) codec \<Rightarrow> (bytes \<times> (bytes \<times> 'p TradeHistory list) list) list \<Rightarrow> bucket \<Rightarrow>
     bucket outcome" where
  "store_exchanges c [] b = Done b"
| "store_exchanges c ((exchange, dataHistory) # rest) b =
     (case CreateBucketIfNotExists exchange b of
        Inl _ \<Rightarrow> if dataHistory = [] then store_exchanges c rest b else Panic
      | Inr (exchangeBk, b') \<Rightarrow>
          (case store_pairs c dataHistory exchangeBk of
             Panic \<Rightarrow> Panic
           | Done exchangeBk' \<Rightarrow> store_exchanges c rest (put_sub exchange exchangeBk' b')))"

text \<open>
  \<^verbatim>\<open>StoreTradeHistory\<close>. The closure returns the \<^verbatim>\<open>err\<close> of the enclosing function, which
  nothing has assigned: the errors inside the loops live in variables of their own. The
  function returns what \<^verbatim>\<open>Update\<close> returns. \<open>data\<close> is \<^verbatim>\<open>data.Data\<close>.
\<close>

definition StoreTradeHistory ::
  "('id, 'tx, 'p) codec \<Rightarrow> error option \<Rightarrow> (bytes \<times> (bytes \<times> 'p TradeHistory list) list) list \<Rightarrow>
     db \<Rightarrow> (error option \<times> db) outcome" where
  "StoreTradeHistory c commit data d =
     (case store_exchanges c data (TRADE_HISTORY d) of
        Panic \<Rightarrow> Panic
      | Done b \<Rightarrow>
          (case Update commit (\<lambda>d. (None, (), d\<lparr>TRADE_HISTORY := b\<rparr>)) d of
             (err, _, d') \<Rightarrow> Done (err, d')))"

text \<open>
  \<^verbatim>\<open>GetLastIDTradeHistory\<close> runs in a read-write transaction and creates both nested
  buckets when they are absent. The captured variable is \<^verbatim>\<open>history\<close>, of which the
  function returns the identifier; it starts as the zero record, whose identifier is the
  empty string.
\<close>

definition GetLastIDTradeHistory ::
  "('id, 'tx, 'p) codec \<Rightarrow> error option \<Rightarrow> bytes \<Rightarrow> bytes \<Rightarrow> db \<Rightarrow>
     (bytes \<times> error option) \<times> db" where
  "GetLastIDTradeHistory c commit exchange pair d =
     (case Update commit
        (\<lambda>d. case CreateBucketIfNotExists exchange (TRADE_HISTORY d) of
                Inl err \<Rightarrow> (Some err, [], d)
              | Inr (exchangeBk, b') \<Rightarrow>
                  (case CreateBucketIfNotExists pair exchangeBk of
                     Inl err \<Rightarrow> (Some err, [], d)
                   | Inr (pairBk, exchangeBk') \<Rightarrow>
                       (None,
                        (case Last pairBk of
                           None \<Rightarrow> []
                         | Some (k, v) \<Rightarrow> ID (snd (unmarshal_th c (cursor_value v)))),
                        d\<lparr>TRADE_HISTORY := put_sub exchange exchangeBk' b'\<rparr>))) d of
        (err, history_ID, d') \<Rightarrow> ((history_ID, err), d'))"

subsection \<open>Pending transactions\<close>

text \<open>
  The scan of \<^verbatim>\<open>GetPendingIntermediateTXs\<close> from a cursor position. The first key or value
  that does not decode ends the scan with that error and the entries gathered so far.
\<close>

fun pending_scan ::
  "('id, 'tx, 'p) codec \<Rightarrow> bucket \<Rightarrow> ('id \<rightharpoonup> 'tx) \<Rightarrow> error option \<times> ('id \<rightharpoonup> 'tx)" where
  "pending_scan c [] result = (None, result)"
| "pending_scan c ((k, v) # rest) result =
     (case unmarshal_id c k of
        (Some err, _) \<Rightarrow> (Some err, result)
      | (None, actID) \<Rightarrow>
          (case unmarshal_tx c (cursor_value v) of
             (Some err, _) \<Rightarrow> (Some err, result)
           | (None, record) \<Rightarrow> pending_scan c rest (result(actID \<mapsto> record))))"

definition GetPendingIntermediateTXs ::
  "('id, 'tx, 'p) codec \<Rightarrow> db \<Rightarrow> ('id \<rightharpoonup> 'tx) \<times> error option" where
  "GetPendingIntermediateTXs c d =
     (case View (\<lambda>d. pending_scan c (PENDING_INTERMEDIATE_TX d) Map.empty) d of
        (err, result) \<Rightarrow> (result, err))"

text \<open>\<^verbatim>\<open>StorePendingIntermediateTx\<close> returns what \<^verbatim>\<open>Update\<close> returns.\<close>

definition StorePendingIntermediateTx ::
  "('id, 'tx, 'p) codec \<Rightarrow> error option \<Rightarrow> 'id \<Rightarrow> 'tx \<Rightarrow> db \<Rightarrow> error option \<times> db" where
  "StorePendingIntermediateTx c commit aid data d =
     (case Update commit
        (\<lambda>d. case marshal_tx c data of
                Inl err \<Rightarrow> (Some err, (), d)
              | Inr dataJson \<Rightarrow>
                  (case marshal_id c aid of
                     Inl err \<Rightarrow> (Some err, (), d)
                   | Inr idJson \<Rightarrow>
                       (case Put idJson dataJson (PENDING_INTERMEDIATE_TX d) of
                          Inl err \<Rightarrow> (Some err, (), d)
                        | Inr b \<Rightarrow> (None, (), d\<lparr>PENDING_INTERMEDIATE_TX := b\<rparr>)))) d of
        (err, _, d') \<Rightarrow> (err, d'))"

text \<open>
  \<^verbatim>\<open>RemovePendingIntermediateTx\<close> drops what \<^verbatim>\<open>Update\<close> returns. The errors inside the
  closure go to a variable that the closure declares; the \<^verbatim>\<open>err\<close> the function returns is
  the one declared at its head, which nothing assigns.
\<close>

definition RemovePendingIntermediateTx ::
  "('id, 'tx, 'p) codec \<Rightarrow> error option \<Rightarrow> 'id \<Rightarrow> db \<Rightarrow> error option \<times> db" where
  "RemovePendingIntermediateTx c commit aid d =
     (let err = None in
      case Update commit
        (\<lambda>d. case marshal_id c aid of
                Inl err \<Rightarrow> (Some err, (), d)
              | Inr idJson \<Rightarrow>
                  (case Delete idJson (PENDING_INTERMEDIATE_TX d) of
                     Inl err \<Rightarrow> (Some err, (), d)
                   | Inr b \<Rightarrow> (None, (), d\<lparr>PENDING_INTERMEDIATE_TX := b\<rparr>))) d of
        (_, _, d') \<Rightarrow> (err, d'))"

subsection \<open>Confirmed transactions\<close>

text \<open>
  The update transaction of \<^verbatim>\<open>StoreIntermediateTx\<close>: the error \<^verbatim>\<open>Update\<close> returns, the
  captured \<^verbatim>\<open>err\<close> (assigned by \<^verbatim>\<open>json.Marshal\<close> only) and the store.
\<close>

definition StoreIntermediateTx_update ::
  "('id, 'tx, 'p) codec \<Rightarrow> error option \<Rightarrow> 'id \<Rightarrow> 'tx \<Rightarrow> db \<Rightarrow> error option \<times> error option \<times> db" where
  "StoreIntermediateTx_update c commit aid data d =
     Update commit
       (\<lambda>d. case marshal_tx c data of
               Inl err \<Rightarrow> (Some err, Some err, d)
             | Inr dataJson \<Rightarrow>
                 (case Put (ToBytes c aid) dataJson (INTERMEDIATE_TX d) of
                    Inl err \<Rightarrow> (Some err, None, d)
                  | Inr b \<Rightarrow> (None, None, d\<lparr>INTERMEDIATE_TX := b\<rparr>))) d"

text \<open>\<^verbatim>\<open>StoreIntermediateTx\<close> drops what \<^verbatim>\<open>Update\<close> returns and returns the captured \<^verbatim>\<open>err\<close>.\<close>

definition StoreIntermediateTx ::
  "('id, 'tx, 'p) codec \<Rightarrow> error option \<Rightarrow> 'id \<Rightarrow> 'tx \<Rightarrow> db \<Rightarrow> error option \<times> db" where
  "StoreIntermediateTx c commit aid data d =
     (case StoreIntermediateTx_update c commit aid data d of
        (_, err, d') \<Rightarrow> (err, d'))"

definition not_found_msg :: string where
  "not_found_msg = ''Can not find 2nd transaction tx for the deposit, please try later''"

text \<open>
  \<^verbatim>\<open>GetIntermedatorTx\<close>. At the end of the bucket the cursor returns \<^verbatim>\<open>nil\<close> for the key
  and the value, which have length 0.
\<close>

definition GetIntermedatorTx ::
  "('id, 'tx, 'p) codec \<Rightarrow> 'id \<Rightarrow> db \<Rightarrow> 'tx \<times> error option" where
  "GetIntermedatorTx c aid d =
     (case View
        (\<lambda>d. let idBytes = ToBytes c aid;
                  (k, v) = (case Seek idBytes (INTERMEDIATE_TX d) of
                              [] \<Rightarrow> ([], [])
                            | (k, e) # _ \<Rightarrow> (k, cursor_value e))
              in if isTheSame k idBytes
                 then unmarshal_tx c v
                 else (Some (ErrorString not_found_msg), zero_tx c)) d of
        (err, tx2) \<Rightarrow> (tx2, err))"

section \<open>The exchange pool\<close>

text \<open>
  What \<^verbatim>\<open>NewExchangePool\<close> calls in other packages is a parameter of the model:
  opening the ledger file of an exchange (\<^verbatim>\<open>NewBoltStorage\<close>, whose only error is the one
  of opening the file), the four adapter constructors, the identity an adapter reports, the
  deposit addresses configured for an exchange (\<^verbatim>\<open>addressConfig.Exchanges[name]\<close>, in the
  order the \<^verbatim>\<open>range\<close> visits them) and the token resolver. An adapter is the pointer the
  constructor returns; what \<^verbatim>\<open>UpdateDepositAddress\<close> and \<^verbatim>\<open>UpdatePairsPrecision\<close> do
  behind it is not part of the model.
\<close>

record ('st, 'a, 'tok) collaborators =
  open_ledger :: "string \<Rightarrow> error + 'st"
  NewStableEx :: "error + 'a"
  NewBittrex :: "'st \<Rightarrow> error + 'a"
  NewBinance :: "'st \<Rightarrow> error + 'a"
  NewHuobi :: "'st \<Rightarrow> error + 'a"
  adapter_ID :: "'a \<Rightarrow> string"
  deposit_addresses :: "string \<Rightarrow> (string \<times> string) list"
  GetInternalTokenByID :: "string \<Rightarrow> error + 'tok"

text \<open>\<^verbatim>\<open>AsyncUpdateDepositAddress\<close>: \<^verbatim>\<open>log.Panicf\<close> when the token does not resolve.\<close>

definition AsyncUpdateDepositAddress ::
  "('st, 'a, 'tok) collaborators \<Rightarrow> 'a \<Rightarrow> string \<Rightarrow> string \<Rightarrow> unit outcome" where
  "AsyncUpdateDepositAddress env ex tokenID addr =
     (case GetInternalTokenByID env tokenID of
        Inl err \<Rightarrow> Panic
      | Inr token \<Rightarrow> Done ())"

text \<open>
  The fan-out and join over the configured addresses. The tasks run concurrently and an
  unrecovered panic in any of them ends the process, so the outcome does not depend on the
  order: it is \<open>Panic\<close> exactly when one task panics.
\<close>

fun provision ::
  "('st, 'a, 'tok) collaborators \<Rightarrow> 'a \<Rightarrow> (string \<times> string) list \<Rightarrow> unit outcome" where
  "provision env ex [] = Done ()"
| "provision env ex ((tokenID, addr) # rest) =
     (case AsyncUpdateDepositAddress env ex tokenID addr of
        Panic \<Rightarrow> Panic
      | Done _ \<Rightarrow> provision env ex rest)"

text \<open>
  The cases \<^verbatim>\<open>"bittrex"\<close>, \<^verbatim>\<open>"binance"\<close> and \<^verbatim>\<open>"huobi"\<close> of the switch have one shape:
  open the ledger file and \<^verbatim>\<open>log.Panic\<close> on its error, construct the adapter and return
  its error, provision the deposit addresses, register the adapter under its identity.
  The result is the outcome of the loop body: a panic, the error that \<^verbatim>\<open>NewExchangePool\<close>
  returns at once, or the registry for the next iteration.
\<close>

definition ledger_exchange ::
  "('st, 'a, 'tok) collaborators \<Rightarrow> string \<Rightarrow> ('st \<Rightarrow> error + 'a) \<Rightarrow> string \<Rightarrow>
     (string \<rightharpoonup> 'a) \<Rightarrow> (error + (string \<rightharpoonup> 'a)) outcome" where
  "ledger_exchange env file construct name exchanges =
     (case open_ledger env file of
        Inl err \<Rightarrow> Panic
      | Inr storage \<Rightarrow>
          (case construct storage of
             Inl err \<Rightarrow> Done (Inl err)
           | Inr ex \<Rightarrow>
               (case provision env ex (deposit_addresses env name) of
                  Panic \<Rightarrow> Panic
                | Done _ \<Rightarrow> Done (Inr (exchanges(adapter_ID env ex \<mapsto> ex))))))"

text \<open>The switch on one requested name; a name without a case changes nothing.\<close>

definition exchange_case ::
  "('st, 'a, 'tok) collaborators \<Rightarrow> string \<Rightarrow> (string \<rightharpoonup> 'a) \<Rightarrow>
     (error + (string \<rightharpoonup> 'a)) outcome" where
  "exchange_case env exparam exchanges =
     (if exparam = ''stable_exchange'' then
        (case NewStableEx env of
           Inl err \<Rightarrow> Done (Inl err)
         | Inr stableEx \<Rightarrow> Done (Inr (exchanges(adapter_ID env stableEx \<mapsto> stableEx))))
      else if exparam = ''bittrex'' then
        ledger_exchange env ''bittrex.db'' (NewBittrex env) ''bittrex'' exchanges
      else if exparam = ''binance'' then
        ledger_exchange env ''binance.db'' (NewBinance env) ''binance'' exchanges
      else if exparam = ''huobi'' then
        ledger_exchange env ''huobi.db'' (NewHuobi env) ''huobi'' exchanges
      else Done (Inr exchanges))"

fun exchange_loop ::
  "('st, 'a, 'tok) collaborators \<Rightarrow> string list \<Rightarrow> (string \<rightharpoonup> 'a) \<Rightarrow>
     (error + (string \<rightharpoonup> 'a)) outcome" where
  "exchange_loop env [] exchanges = Done (Inr exchanges)"
| "exchange_loop env (exparam # rest) exchanges =
     (case exchange_case env exparam exchanges of
        Panic \<Rightarrow> Panic
      | Done (Inl err) \<Rightarrow> Done (Inl err)
      | Done (Inr exchanges') \<Rightarrow> exchange_loop env rest exchanges')"

text \<open>\<^verbatim>\<open>strings.Split(params, ",")\<close>; \<open>field\<close> is the field read so far.\<close>

fun split_comma :: "string \<Rightarrow> string \<Rightarrow> string list" where
  "split_comma field [] = [field]"
| "split_comma field (ch # s) =
     (if ch = CHR '','' then field # split_comma [] s else split_comma (field @ [ch]) s)"

text \<open>
  \<^verbatim>\<open>NewExchangePool\<close>; \<open>params\<close> is the value of the environment variable
  \<^verbatim>\<open>KYBER_EXCHANGES\<close>.
\<close>

definition NewExchangePool ::
  "('st, 'a, 'tok) collaborators \<Rightarrow> string \<Rightarrow> (error + (string \<rightharpoonup> 'a)) outcome" where
  "NewExchangePool env params = exchange_loop env (split_comma [] params) Map.empty"

text \<open>The names that have a case in the switch.\<close>

definition recognized :: "string \<Rightarrow> bool" where
  "recognized exparam =
     (exparam = ''stable_exchange'' \<or> exparam = ''bittrex'' \<or> exparam = ''binance'' \<or>
      exparam = ''huobi'')"

section \<open>Invariants of the store and reference results\<close>

text \<open>The keys of a bucket ascend strictly.\<close>

definition sorted_keys :: "bucket \<Rightarrow> bool" where
  "sorted_keys b = sorted_wrt (<) (map fst b)"

text \<open>
  The shape the ledger operations give the trade-history partition: exchange buckets under
  non-empty names, in them pair buckets under non-empty names, in them values under 8-byte
  keys.
\<close>

definition wf_pair :: "bucket \<Rightarrow> bool" where
  "wf_pair pairBk =
     (sorted_keys pairBk \<and> list_all (\<lambda>(k, e). length k = 8 \<and> \<not> is_bucket e) pairBk)"

definition wf_exchange :: "bucket \<Rightarrow> bool" where
  "wf_exchange exchangeBk =
     (sorted_keys exchangeBk \<and>
      list_all (\<lambda>(k, e). k \<noteq> [] \<and> (case e of Sub pairBk \<Rightarrow> wf_pair pairBk | Val _ \<Rightarrow> False))
        exchangeBk)"

definition wf_history :: "bucket \<Rightarrow> bool" where
  "wf_history b =
     (sorted_keys b \<and>
      list_all (\<lambda>(k, e). k \<noteq> [] \<and> (case e of Sub exchangeBk \<Rightarrow> wf_exchange exchangeBk | Val _ \<Rightarrow> False))
        b)"

text \<open>The number a byte list denotes when read big-endian.\<close>

fun be_nat :: "bytes \<Rightarrow> nat" where
  "be_nat [] = 0"
| "be_nat (b # bs) = unat b * 256 ^ length bs + be_nat bs"

text \<open>The pair bucket of an exchange and a pair, when both buckets exist.\<close>

definition pair_bucket :: "bucket \<Rightarrow> bytes \<Rightarrow> bytes \<Rightarrow> bucket option" where
  "pair_bucket b exchange pair =
     (case bucket_get exchange b of
        Some (Sub exchangeBk) \<Rightarrow>
          (case bucket_get pair exchangeBk of
             Some (Sub pairBk) \<Rightarrow> Some pairBk
           | _ \<Rightarrow> None)
      | _ \<Rightarrow> None)"

text \<open>
  The reference result of the range query, written from the specification: the records of
  a pair bucket whose timestamp lies between the two bounds, both included, in key order;
  and the mapping from every exchange and pair of the partition to those records.
\<close>

definition in_range :: "64 word \<Rightarrow> 64 word \<Rightarrow> bytes \<Rightarrow> bool" where
  "in_range fromTime toTime k =
     (case bytesToUint64 k of
        None \<Rightarrow> False
      | Some t \<Rightarrow> fromTime \<le> t \<and> t \<le> toTime)"

definition records_between ::
  "('id, 'tx, 'p) codec \<Rightarrow> 64 word \<Rightarrow> 64 word \<Rightarrow> bucket \<Rightarrow> 'p TradeHistory list" where
  "records_between c fromTime toTime pairBk =
     map (\<lambda>(k, e). snd (unmarshal_th c (cursor_value e)))
       (filter (\<lambda>(k, e). in_range fromTime toTime k) pairBk)"

definition history_between ::
  "('id, 'tx, 'p) codec \<Rightarrow> 64 word \<Rightarrow> 64 word \<Rightarrow> bucket \<Rightarrow>
     (bytes \<rightharpoonup> (bytes \<rightharpoonup> 'p TradeHistory list))" where
  "history_between c fromTime toTime b =
     (\<lambda>exchange. case map_of b exchange of
        Some (Sub exchangeBk) \<Rightarrow>
          Some (\<lambda>pair. case map_of exchangeBk pair of
             Some (Sub pairBk) \<Rightarrow> Some (records_between c fromTime toTime pairBk)
           | _ \<Rightarrow> None)
      | _ \<Rightarrow> None)"

text \<open>
  The shape the ledger operations give the pending partition: values only, under keys that
  decode to an identifier whose encoding is that key, with values that decode.
\<close>

definition wf_pending :: "('id, 'tx, 'p) codec \<Rightarrow> bucket \<Rightarrow> bool" where
  "wf_pending c b =
     (sorted_keys b \<and>
      list_all (\<lambda>(k, e). \<not> is_bucket e \<and> fst (unmarshal_id c k) = None \<and>
                  marshal_id c (snd (unmarshal_id c k)) = Inr k \<and>
                  fst (unmarshal_tx c (cursor_value e)) = None) b)"

text \<open>What the scan of a well-formed pending partition returns for an identifier.\<close>

definition pending_entry ::
  "('id, 'tx, 'p) codec \<Rightarrow> bucket \<Rightarrow> 'id \<Rightarrow> 'tx option" where
  "pending_entry c b i =
     (case marshal_id c i of
        Inl _ \<Rightarrow> None
      | Inr k \<Rightarrow>
          (case map_of b k of
             None \<Rightarrow> None
           | Some e \<Rightarrow>
               if snd (unmarshal_id c k) = i then Some (snd (unmarshal_tx c (cursor_value e)))
               else None))"

text \<open>
  The effect of \<^verbatim>\<open>StoreTradeHistory\<close> when every bucket can be created, as plain folds:
  the nested bucket under a name (empty when the name is free), the exchange bucket after
  the records of its pairs are stored, and the partition after all exchanges are stored.
\<close>

definition child_bucket :: "bytes \<Rightarrow> bucket \<Rightarrow> bucket" where
  "child_bucket name b = (case map_of b name of Some (Sub child) \<Rightarrow> child | _ \<Rightarrow> [])"

fun pairs_after ::
  "('id, 'tx, 'p) codec \<Rightarrow> (bytes \<times> 'p TradeHistory list) list \<Rightarrow> bucket \<Rightarrow> bucket" where
  "pairs_after c [] exchangeBk = exchangeBk"
| "pairs_after c ((pair, pairHistory) # rest) exchangeBk =
     pairs_after c rest
       (bucket_put pair (Sub (store_records c pairHistory (child_bucket pair exchangeBk))) exchangeBk)"

fun history_after ::
  "('id, 'tx, 'p) codec \<Rightarrow> (bytes \<times> (bytes \<times> 'p TradeHistory list) list) list \<Rightarrow> bucket \<Rightarrow>
     bucket" where
  "history_after c [] b = b"
| "history_after c ((exchange, dataHistory) # rest) b =
     history_after c rest
       (bucket_put exchange (Sub (pairs_after c dataHistory (child_bucket exchange b))) b)"

section \<open>Examples\<close>

text \<open>A concrete encoding used to run the operations on examples: identifiers and
  transaction entries are byte strings stored as they are, a trade record is its
  big-endian timestamp followed by its identifier.\<close>

definition plain_codec :: "(bytes, bytes, unit) codec" where
  "plain_codec =
     \<lparr>marshal_id = Inr, unmarshal_id = (\<lambda>k. (None, k)), ToBytes = (\<lambda>i. take 64 (i @ replicate 64 0)),
      marshal_tx = Inr, unmarshal_tx = (\<lambda>v. (None, v)), zero_tx = [],
      marshal_th = (\<lambda>h. Inr (uint64ToBytes (Timestamp h) @ ID h)),
      unmarshal_th = (\<lambda>v. case bytesToUint64 v of
          None \<Rightarrow> (Some ErrJSON, \<lparr>ID = [], Timestamp = 0, Fields = ()\<rparr>)
        | Some t \<Rightarrow> (None, \<lparr>ID = drop 8 v, Timestamp = t, Fields = ()\<rparr>))\<rparr>"

definition empty_db :: db where
  "empty_db = \<lparr>INTERMEDIATE_TX = [], PENDING_INTERMEDIATE_TX = [], TRADE_HISTORY = []\<rparr>"

text \<open>A store with three trades of one pair on one exchange.\<close>

definition binance_id :: bytes where
  "binance_id = map of_char ''binance''"

definition eth_knc :: bytes where
  "eth_knc = map of_char ''ETH-KNC''"

definition trade :: "byte \<Rightarrow> 64 word \<Rightarrow> unit TradeHistory" where
  "trade n t = \<lparr>ID = [n], Timestamp = t, Fields = ()\<rparr>"

definition stored_trade :: "byte \<Rightarrow> 64 word \<Rightarrow> bytes \<times> entry" where
  "stored_trade n t = (uint64ToBytes t, Val (uint64ToBytes t @ [n]))"

definition example_db :: db where
  "example_db = empty_db\<lparr>TRADE_HISTORY :=
     [(binance_id, Sub [(eth_knc, Sub [stored_trade 1 1000, stored_trade 2 2000, stored_trade 3 3000])])]\<rparr>"

text \<open>
  Collaborators for the exchange pool: the bittrex ledger does not open, the huobi and the
  stable-exchange constructors fail, binance has two configured tokens, and the tokens in
  \<open>tokens\<close> resolve.
\<close>

definition pool_env :: "string list \<Rightarrow> (string, string, string) collaborators" where
  "pool_env tokens =
     \<lparr>open_ledger = (\<lambda>file. if file = ''bittrex.db'' then Inl ErrEngineIO else Inr file),
      NewStableEx = Inl (ErrorString ''stable''),
      NewBittrex = (\<lambda>storage. Inr ''bittrex''),
      NewBinance = (\<lambda>storage. Inr ''binance''),
      NewHuobi = (\<lambda>storage. Inl (ErrorString ''huobi'')),
      adapter_ID = (\<lambda>ex. ex),
      deposit_addresses =
        (\<lambda>name. if name = ''binance'' then [(''ETH'', ''0x01''), (''KNC'', ''0x02'')] else []),
      GetInternalTokenByID =
        (\<lambda>tokenID. if tokenID \<in> set tokens then Inr tokenID else Inl (ErrorString ''token''))\<rparr>"

text \<open>An identifier and a transaction entry for the plain encoding.\<close>

definition example_id :: bytes where
  "example_id = map of_char ''deposit-1''"

definition example_tx :: bytes where
  "example_tx = map of_char ''0xabc''"

text \<open>
  A store whose confirmed partition holds the entry of a later identifier, and the example
  store with the example entry in its pending partition.
\<close>

definition later_id :: bytes where
  "later_id = map of_char ''deposit-2''"

definition confirmed_db :: db where
  "confirmed_db = example_db\<lparr>INTERMEDIATE_TX := [(ToBytes plain_codec later_id, Val example_tx)]\<rparr>"

definition pending_db :: db where
  "pending_db = example_db\<lparr>PENDING_INTERMEDIATE_TX := [(example_id, Val example_tx)]\<rparr>"

text \<open>
  A snapshot that writes the timestamp 2000 of the example pair twice, the store after such
  a write, and a pair that the example store does not hold.
\<close>

definition rewrite_snapshot :: "(bytes \<times> (bytes \<times> unit TradeHistory list) list) list" where
  "rewrite_snapshot = [(binance_id, [(eth_knc, [trade 5 2000, trade 6 2000])])]"

definition rewritten_db :: "byte \<Rightarrow> db" where
  "rewritten_db n = empty_db\<lparr>TRADE_HISTORY :=
     [(binance_id, Sub [(eth_knc, Sub [stored_trade 1 1000, stored_trade n 2000, stored_trade 3 3000])])]\<rparr>"

definition knc_eth :: bytes where
  "knc_eth = map of_char ''KNC-ETH''"

section \<open>The key encoding preserves the order\<close>

lemma unat_byte_lt: "unat (b :: byte) < 256"
  using unsigned_less [of b, where ?'a = nat] by simp

lemma digit_lt: "a < c \<Longrightarrow> r < P \<Longrightarrow> a * P + r < c * (P::nat)"
proof -
  assume "a < c" and r: "r < P"
  then have "Suc a * P \<le> c * P" by (intro mult_le_mono1) simp
  with r show ?thesis by simp
qed

lemma be_nat_bound: "be_nat bs < 256 ^ length bs"
proof (induction bs)
  case Nil show ?case by simp
next
  case (Cons b bs)
  from digit_lt [OF unat_byte_lt Cons.IH, of b] show ?case by simp
qed

lemma be_nat_less:
  "length xs = length ys \<Longrightarrow> (xs < ys) = (be_nat xs < be_nat ys)"
proof (induction xs ys rule: list_induct2)
  case Nil show ?case by simp
next
  case (Cons x xs y ys)
  let ?P = "256 ^ length ys :: nat"
  have bx: "be_nat xs < ?P" using be_nat_bound [of xs] Cons.hyps by simp
  have bnd: "be_nat ys < ?P" by (rule be_nat_bound)
  show ?case
  proof (cases "x = y")
    case True
    with Cons show ?thesis by simp
  next
    case False
    show ?thesis
    proof (cases "x < y")
      case True
      then have "unat x < unat y" by (simp add: word_less_nat_alt)
      from digit_lt [OF this bx]
      have "unat x * ?P + be_nat xs < unat y * ?P + be_nat ys" by simp
      with True Cons.hyps show ?thesis by simp
    next
      case nl: False
      with False have "y < x" by simp
      then have "unat y < unat x" by (simp add: word_less_nat_alt)
      from digit_lt [OF this bnd]
      have "unat y * ?P + be_nat ys < unat x * ?P + be_nat xs" by simp
      with nl False Cons.hyps show ?thesis by simp
    qed
  qed
qed

lemma unat_low_byte: "unat (ucast (u :: 64 word) :: byte) = unat u mod 256"
  by (simp add: unsigned_ucast_eq take_bit_eq_mod)

lemma digit_step: "(n::nat) div 2 ^ k = n div 2 ^ (k + 8) * 256 + n div 2 ^ k mod 256"
proof -
  have "n div 2 ^ (k + 8) = n div 2 ^ k div 256"
    by (simp add: power_add div_mult2_eq)
  then show ?thesis by simp
qed

lemma horner8:
  fixes a0 :: nat
  assumes "a0 = a1 * 256 + d0" "a1 = a2 * 256 + d1" "a2 = a3 * 256 + d2" "a3 = a4 * 256 + d3"
    "a4 = a5 * 256 + d4" "a5 = a6 * 256 + d5" "a6 = a7 * 256 + d6" "a7 = d7"
  shows "d7 * 256 ^ 7 + (d6 * 256 ^ 6 + (d5 * 256 ^ 5 + (d4 * 256 ^ 4 + (d3 * 256 ^ 3 +
    (d2 * 256 ^ 2 + (d1 * 256 + d0)))))) = a0"
  using assms by simp

lemma split_digits:
  assumes "(n::nat) < 2 ^ 64"
  shows "n div 2 ^ 56 mod 256 * 256 ^ 7 + (n div 2 ^ 48 mod 256 * 256 ^ 6 +
    (n div 2 ^ 40 mod 256 * 256 ^ 5 + (n div 2 ^ 32 mod 256 * 256 ^ 4 +
    (n div 2 ^ 24 mod 256 * 256 ^ 3 + (n div 2 ^ 16 mod 256 * 256 ^ 2 +
    (n div 2 ^ 8 mod 256 * 256 + n mod 256)))))) = n"
proof (rule horner8)
  show "n = n div 2 ^ 8 * 256 + n mod 256" using digit_step [of n 0] by simp
  show "n div 2 ^ 8 = n div 2 ^ 16 * 256 + n div 2 ^ 8 mod 256" using digit_step [of n 8] by simp
  show "n div 2 ^ 16 = n div 2 ^ 24 * 256 + n div 2 ^ 16 mod 256" using digit_step [of n 16] by simp
  show "n div 2 ^ 24 = n div 2 ^ 32 * 256 + n div 2 ^ 24 mod 256" using digit_step [of n 24] by simp
  show "n div 2 ^ 32 = n div 2 ^ 40 * 256 + n div 2 ^ 32 mod 256" using digit_step [of n 32] by simp
  show "n div 2 ^ 40 = n div 2 ^ 48 * 256 + n div 2 ^ 40 mod 256" using digit_step [of n 40] by simp
  show "n div 2 ^ 48 = n div 2 ^ 56 * 256 + n div 2 ^ 48 mod 256" using digit_step [of n 48] by simp
  have "n div 2 ^ 56 < 256" using assms by (simp add: less_mult_imp_div_less)
  then show "n div 2 ^ 56 = n div 2 ^ 56 mod 256" by simp
qed

lemma be_nat_uint64ToBytes: "be_nat (uint64ToBytes u) = unat u"
proof -
  have "unat u < 2 ^ 64" using unsigned_less [of u, where ?'a = nat] by simp
  from split_digits [OF this] show ?thesis
    unfolding uint64ToBytes_def by (simp add: unat_low_byte unat_drop_bit_eq drop_bit_nat_def)
qed

lemma length_uint64ToBytes: "length (uint64ToBytes u) = 8"
  by (simp add: uint64ToBytes_def)

lemma uint64ToBytes_less: "(uint64ToBytes u < uint64ToBytes v) = (u < v)"
  by (simp add: be_nat_less length_uint64ToBytes be_nat_uint64ToBytes word_less_nat_alt)

lemma uint64ToBytes_inj: "(uint64ToBytes u = uint64ToBytes v) = (u = v)"
  by (metis be_nat_uint64ToBytes word_unat_eq_iff)

lemma uint64ToBytes_le: "(uint64ToBytes u \<le> uint64ToBytes v) = (u \<le> v)"
  by (simp add: le_less uint64ToBytes_less uint64ToBytes_inj)

lemma byte_high_bit: "8 \<le> m \<Longrightarrow> \<not> bit (b :: byte) m"
  by (auto dest: bit_imp_le_length)

lemma byte_of_or:
  fixes b0 b1 b2 b3 b4 b5 b6 b7 :: byte
  defines "W \<equiv> (ucast b7 OR push_bit 8 (ucast b6) OR push_bit 16 (ucast b5) OR push_bit 24 (ucast b4)
       OR push_bit 32 (ucast b3) OR push_bit 40 (ucast b2) OR push_bit 48 (ucast b1)
       OR push_bit 56 (ucast b0) :: 64 word)"
  shows "ucast (drop_bit 56 W) = b0" "ucast (drop_bit 48 W) = b1" "ucast (drop_bit 40 W) = b2"
    "ucast (drop_bit 32 W) = b3" "ucast (drop_bit 24 W) = b4" "ucast (drop_bit 16 W) = b5"
    "ucast (drop_bit 8 W) = b6" "ucast W = b7"
  unfolding W_def
  by (rule bit_word_eqI, simp add: bit_simps byte_high_bit)+

lemma length8E:
  assumes "length (k :: 'a list) = 8"
  obtains b0 b1 b2 b3 b4 b5 b6 b7 where "k = [b0, b1, b2, b3, b4, b5, b6, b7]"
  using assms by (auto simp: length_Suc_conv eval_nat_numeral)

lemma key_is_encoding:
  assumes "length k = 8"
  shows "\<exists>t. bytesToUint64 k = Some t \<and> uint64ToBytes t = k"
proof -
  from assms obtain b0 b1 b2 b3 b4 b5 b6 b7 where k: "k = [b0, b1, b2, b3, b4, b5, b6, b7]"
    by (rule length8E)
  show ?thesis unfolding k
    by (intro exI conjI, rule bytesToUint64.simps) (simp only: uint64ToBytes_def byte_of_or)
qed

lemma bytesToUint64_uint64ToBytes: "bytesToUint64 (uint64ToBytes u) = Some u"
proof -
  from key_is_encoding [OF length_uint64ToBytes]
  obtain t where t: "bytesToUint64 (uint64ToBytes u) = Some t" "uint64ToBytes t = uint64ToBytes u"
    by blast
  then show ?thesis by (simp add: uint64ToBytes_inj)
qed

lemma in_range_key:
  assumes "length k = 8"
  shows "in_range fromTime toTime k = (uint64ToBytes fromTime \<le> k \<and> k \<le> uint64ToBytes toTime)"
proof -
  from key_is_encoding [OF assms] obtain t where "bytesToUint64 k = Some t" "uint64ToBytes t = k"
    by blast
  then show ?thesis
    using uint64ToBytes_le [of fromTime t] uint64ToBytes_le [of t toTime]
    by (simp add: in_range_def)
qed

lemma same_bytes_eq: "length a = length b \<Longrightarrow> same_bytes a b = (a = b)"
  by (induction a b rule: list_induct2) auto

lemma isTheSame_eq: "isTheSame a b = (a = b)"
  by (auto simp: isTheSame_def same_bytes_eq)

section \<open>Buckets as sorted lists\<close>

lemma sorted_keys_Cons:
  "sorted_keys ((k, e) # b) = ((\<forall>(k', e') \<in> set b. k < k') \<and> sorted_keys b)"
  by (auto simp: sorted_keys_def)

lemma sorted_keys_Nil: "sorted_keys []"
  by (simp add: sorted_keys_def)

lemma sorted_keys_distinct: "sorted_keys b \<Longrightarrow> distinct (map fst b)"
  by (induction b) (auto simp: sorted_keys_def)

lemma Seek_sorted:
  "sorted_keys b \<Longrightarrow> Seek key b = filter (\<lambda>(k, e). key \<le> k) b"
proof (induction b)
  case Nil
  show ?case by (simp add: Seek_def)
next
  case (Cons x b)
  obtain k e where x: "x = (k, e)" by (cases x)
  from Cons.prems have above: "\<forall>(k', e') \<in> set b. k < k'" and sb: "sorted_keys b"
    by (simp_all add: x sorted_keys_Cons)
  show ?case
  proof (cases "k < key")
    case True
    with Cons.IH [OF sb] show ?thesis by (simp add: x Seek_def)
  next
    case False
    with above have "\<forall>(k', e') \<in> set b. key \<le> k'" by auto
    then have "filter (\<lambda>(k, e). key \<le> k) b = b" by (auto simp: filter_id_conv)
    with False show ?thesis by (simp add: x Seek_def)
  qed
qed

lemma scan_pair_takeWhile:
  "scan_pair c maxKey xs acc =
     acc @ map (\<lambda>(k, e). snd (unmarshal_th c (cursor_value e))) (takeWhile (\<lambda>(k, e). k \<le> maxKey) xs)"
  by (induction xs arbitrary: acc) auto

lemma takeWhile_sorted:
  "sorted_keys b \<Longrightarrow> takeWhile (\<lambda>(k, e). k \<le> maxKey) b = filter (\<lambda>(k, e). k \<le> maxKey) b"
proof (induction b)
  case Nil
  show ?case by simp
next
  case (Cons x b)
  obtain k e where x: "x = (k, e)" by (cases x)
  from Cons.prems have above: "\<forall>(k', e') \<in> set b. k < k'" and sb: "sorted_keys b"
    by (simp_all add: x sorted_keys_Cons)
  show ?case
  proof (cases "k \<le> maxKey")
    case True
    with Cons.IH [OF sb] show ?thesis by (simp add: x)
  next
    case False
    with above have "\<forall>(k', e') \<in> set b. \<not> k' \<le> maxKey" by auto
    then have "filter (\<lambda>(k, e). k \<le> maxKey) b = []" by (auto simp: filter_empty_conv)
    with False show ?thesis by (simp add: x)
  qed
qed

lemma sorted_keys_filter: "sorted_keys b \<Longrightarrow> sorted_keys (filter P b)"
  unfolding sorted_keys_def by (induction b) (auto)

lemma scan_pair_range:
  assumes "wf_pair pairBk"
  shows "scan_pair c (uint64ToBytes toTime) (Seek (uint64ToBytes fromTime) pairBk) [] =
           records_between c fromTime toTime pairBk"
proof -
  from assms have sk: "sorted_keys pairBk" and len: "\<forall>(k, e) \<in> set pairBk. length k = 8"
    by (auto simp: wf_pair_def list_all_iff)
  let ?lo = "uint64ToBytes fromTime" and ?hi = "uint64ToBytes toTime"
  have "takeWhile (\<lambda>(k, e). k \<le> ?hi) (Seek ?lo pairBk) =
          filter (\<lambda>(k, e). k \<le> ?hi) (filter (\<lambda>(k, e). ?lo \<le> k) pairBk)"
    using sk by (simp add: Seek_sorted takeWhile_sorted sorted_keys_filter)
  also have "\<dots> = filter (\<lambda>(k, e). in_range fromTime toTime k) pairBk"
    using len by (auto simp: in_range_key intro!: filter_cong)
  finally show ?thesis
    by (simp add: scan_pair_takeWhile records_between_def)
qed

section \<open>The range query\<close>

lemma scan_exchange_all_buckets:
  assumes "distinct (map fst exchangeBk)" and "list_all (\<lambda>(k, e). is_bucket e) exchangeBk"
  shows "scan_exchange c minKey maxKey exchangeBk acc pair =
     (case map_of exchangeBk pair of
        Some e \<Rightarrow> (case e of Sub pairBk \<Rightarrow> Some (scan_pair c maxKey (Seek minKey pairBk) []) | Val _ \<Rightarrow> acc pair)
      | None \<Rightarrow> acc pair)"
  using assms
proof (induction exchangeBk arbitrary: acc)
  case Nil
  show ?case by simp
next
  case (Cons x b)
  obtain k e where x: "x = (k, e)" by (cases x)
  from Cons.prems obtain pb where e: "e = Sub pb" by (cases e) (auto simp: x)
  from Cons.prems have d: "distinct (map fst b)" and nk: "k \<notin> fst ` set b"
    and lb: "list_all (\<lambda>(k, e). is_bucket e) b"
    by (auto simp: x)
  from nk have none: "map_of b k = None" by (simp add: map_of_eq_None_iff)
  show ?case
    using Cons.IH [OF d lb] none by (auto simp: x e split: option.splits entry.splits)
qed

lemma scan_history_all_buckets:
  assumes "distinct (map fst b)" and "list_all (\<lambda>(k, e). is_bucket e) b"
  shows "scan_history c minKey maxKey b acc exchange =
     (case map_of b exchange of
        Some e \<Rightarrow> (case e of Sub exchangeBk \<Rightarrow> Some (scan_exchange c minKey maxKey exchangeBk Map.empty) | Val _ \<Rightarrow> acc exchange)
      | None \<Rightarrow> acc exchange)"
  using assms
proof (induction b arbitrary: acc)
  case Nil
  show ?case by simp
next
  case (Cons x b)
  obtain k e where x: "x = (k, e)" by (cases x)
  from Cons.prems obtain eb where e: "e = Sub eb" by (cases e) (auto simp: x)
  from Cons.prems have d: "distinct (map fst b)" and nk: "k \<notin> fst ` set b"
    and lb: "list_all (\<lambda>(k, e). is_bucket e) b"
    by (auto simp: x)
  from nk have none: "map_of b k = None" by (simp add: map_of_eq_None_iff)
  show ?case
    using Cons.IH [OF d lb] none by (auto simp: x e split: option.splits entry.splits)
qed

lemma wf_exchange_entries:
  assumes "wf_exchange exchangeBk"
  shows "distinct (map fst exchangeBk)" "list_all (\<lambda>(k, e). is_bucket e) exchangeBk"
    "\<And>pair pairBk. map_of exchangeBk pair = Some (Sub pairBk) \<Longrightarrow> wf_pair pairBk"
    "\<And>pair v. map_of exchangeBk pair \<noteq> Some (Val v)"
proof -
  from assms have sk: "sorted_keys exchangeBk"
    and all: "\<And>k e. (k, e) \<in> set exchangeBk \<Longrightarrow>
                 k \<noteq> [] \<and> (case e of Sub pb \<Rightarrow> wf_pair pb | Val _ \<Rightarrow> False)"
    by (auto simp: wf_exchange_def list_all_iff)
  show "distinct (map fst exchangeBk)" using sk by (rule sorted_keys_distinct)
  show "list_all (\<lambda>(k, e). is_bucket e) exchangeBk"
    unfolding list_all_iff
  proof clarify
    fix k e
    assume "(k, e) \<in> set exchangeBk"
    from all [OF this] show "is_bucket e" by (cases e) simp_all
  qed
  show "wf_pair pairBk" if "map_of exchangeBk pair = Some (Sub pairBk)" for pair pairBk
    using all [OF map_of_SomeD [OF that]] by simp
  show "map_of exchangeBk pair \<noteq> Some (Val v)" for pair v
  proof
    assume "map_of exchangeBk pair = Some (Val v)"
    from all [OF map_of_SomeD [OF this]] show False by simp
  qed
qed

lemma wf_history_entries:
  assumes "wf_history b"
  shows "distinct (map fst b)" "list_all (\<lambda>(k, e). is_bucket e) b"
    "\<And>exchange exchangeBk. map_of b exchange = Some (Sub exchangeBk) \<Longrightarrow> wf_exchange exchangeBk"
    "\<And>exchange v. map_of b exchange \<noteq> Some (Val v)"
proof -
  from assms have sk: "sorted_keys b"
    and all: "\<And>k e. (k, e) \<in> set b \<Longrightarrow>
                 k \<noteq> [] \<and> (case e of Sub eb \<Rightarrow> wf_exchange eb | Val _ \<Rightarrow> False)"
    by (auto simp: wf_history_def list_all_iff)
  show "distinct (map fst b)" using sk by (rule sorted_keys_distinct)
  show "list_all (\<lambda>(k, e). is_bucket e) b"
    unfolding list_all_iff
  proof clarify
    fix k e
    assume "(k, e) \<in> set b"
    from all [OF this] show "is_bucket e" by (cases e) simp_all
  qed
  show "wf_exchange exchangeBk" if "map_of b exchange = Some (Sub exchangeBk)" for exchange exchangeBk
    using all [OF map_of_SomeD [OF that]] by simp
  show "map_of b exchange \<noteq> Some (Val v)" for exchange v
  proof
    assume "map_of b exchange = Some (Val v)"
    from all [OF map_of_SomeD [OF this]] show False by simp
  qed
qed

lemma scan_exchange_wf:
  assumes "wf_exchange exchangeBk"
  shows "scan_exchange c (uint64ToBytes fromTime) (uint64ToBytes toTime) exchangeBk Map.empty =
     (\<lambda>pair. case map_of exchangeBk pair of
        Some (Sub pairBk) \<Rightarrow> Some (records_between c fromTime toTime pairBk)
      | _ \<Rightarrow> None)"
proof
  fix pair
  note wf = wf_exchange_entries [OF assms]
  show "scan_exchange c (uint64ToBytes fromTime) (uint64ToBytes toTime) exchangeBk Map.empty pair =
     (case map_of exchangeBk pair of
        Some (Sub pairBk) \<Rightarrow> Some (records_between c fromTime toTime pairBk)
      | _ \<Rightarrow> None)"
    using wf(3) [of pair]
    by (simp add: scan_exchange_all_buckets [OF wf(1,2)] scan_pair_range
          split: option.splits entry.splits)
qed

lemma scan_history_wf:
  assumes "wf_history b"
  shows "scan_history c (uint64ToBytes fromTime) (uint64ToBytes toTime) b Map.empty =
           history_between c fromTime toTime b"
proof
  fix exchange
  note wf = wf_history_entries [OF assms]
  show "scan_history c (uint64ToBytes fromTime) (uint64ToBytes toTime) b Map.empty exchange =
           history_between c fromTime toTime b exchange"
    using wf(3) [of exchange]
    by (simp add: scan_history_all_buckets [OF wf(1,2)] scan_exchange_wf history_between_def
          split: option.splits entry.splits)
qed

lemma bytesToUint64_prefix: "bytesToUint64 (uint64ToBytes u @ xs) = Some u"
  using bytesToUint64_uint64ToBytes [of u] by (simp add: uint64ToBytes_def)

lemma unmarshal_plain: "unmarshal_th plain_codec (uint64ToBytes t @ [n]) = (None, trade n t)"
  by (simp add: plain_codec_def bytesToUint64_prefix trade_def length_uint64ToBytes)

lemma wf_example: "wf_history (TRADE_HISTORY example_db)"
  by (simp add: example_db_def empty_db_def wf_history_def wf_exchange_def wf_pair_def
      sorted_keys_def stored_trade_def uint64ToBytes_less length_uint64ToBytes binance_id_def eth_knc_def)

text \<open>
  C1. On a store of the shape the ledger gives it, and for bounds whose unsigned difference
  \<open>toTime - fromTime\<close> is at most three days of milliseconds, \<^verbatim>\<open>GetTradeHistory\<close> returns
  no error and the reference result: for every exchange and every pair of the partition
  exactly the records stored under a timestamp \<open>t\<close> with \<open>fromTime \<le> t \<le> toTime\<close>, in
  ascending order. The scan rests on the big-endian keys: the byte order of two encoded
  timestamps is the order of the timestamps.
\<close>

theorem GetTradeHistory_range:
  assumes "wf_history (TRADE_HISTORY d)"
    and "toTime - fromTime \<le> MAX_GET_TRADE_HISTORY"
  shows "GetTradeHistory c now d fromTime toTime =
           (\<lparr>CaptureTimestamp = now, Data = history_between c fromTime toTime (TRADE_HISTORY d)\<rparr>,
            None) \<and>
         (\<forall>t t'. (uint64ToBytes t \<le> uint64ToBytes t') = (t \<le> t'))"
  using assms(2)
  by (simp add: GetTradeHistory_def View_def scan_history_wf [OF assms(1)] not_less [symmetric]
      uint64ToBytes_less)

theorem GetTradeHistory_range_witness:
  "wf_history (TRADE_HISTORY example_db) \<and> (2000 :: 64 word) - 1000 \<le> MAX_GET_TRADE_HISTORY \<and>
   GetTradeHistory plain_codec 7 example_db 1000 2000 =
     (\<lparr>CaptureTimestamp = 7,
       Data = [binance_id \<mapsto> [eth_knc \<mapsto> [trade 1 1000, trade 2 2000]]]\<rparr>, None)"
proof -
  have h1: "wf_history (TRADE_HISTORY example_db)" by (rule wf_example)
  have h2: "(2000 :: 64 word) - 1000 \<le> MAX_GET_TRADE_HISTORY"
    by (simp add: MAX_GET_TRADE_HISTORY_def)
  have "history_between plain_codec 1000 2000 (TRADE_HISTORY example_db) =
          [binance_id \<mapsto> [eth_knc \<mapsto> [trade 1 1000, trade 2 2000]]]"
    by (auto simp: history_between_def example_db_def empty_db_def records_between_def
        stored_trade_def in_range_def bytesToUint64_uint64ToBytes unmarshal_plain fun_eq_iff)
  with GetTradeHistory_range [OF h1 h2, of plain_codec 7, THEN conjunct1] h1 h2 show ?thesis
    by simp
qed

section \<open>Rejected time ranges\<close>

text \<open>
  C2. When the unsigned difference \<open>toTime - fromTime\<close> exceeds three days of milliseconds,
  \<^verbatim>\<open>GetTradeHistory\<close> returns the range error and a result whose data mapping is empty:
  nothing is read from the store.
\<close>

theorem GetTradeHistory_too_broad:
  "MAX_GET_TRADE_HISTORY < toTime - fromTime \<Longrightarrow>
   GetTradeHistory c now d fromTime toTime =
     (\<lparr>CaptureTimestamp = now, Data = Map.empty\<rparr>, Some (ErrorString range_msg))"
  by (simp add: GetTradeHistory_def)

theorem GetTradeHistory_too_broad_witness:
  "MAX_GET_TRADE_HISTORY < (259200001 :: 64 word) - 0 \<and>
   GetTradeHistory plain_codec 7 example_db 0 259200001 =
     (\<lparr>CaptureTimestamp = 7, Data = Map.empty\<rparr>, Some (ErrorString range_msg))"
proof -
  have h: "MAX_GET_TRADE_HISTORY < (259200001 :: 64 word) - 0"
    by (simp add: MAX_GET_TRADE_HISTORY_def)
  from GetTradeHistory_too_broad [OF h, of plain_codec 7 example_db] h show ?thesis
    by simp
qed

text \<open>
  C10. An inverted range, \<open>fromTime\<close> above \<open>toTime\<close> by less than \<open>2^64 - 3 * 86400000\<close>, is
  rejected with the range error and an empty result: the unsigned subtraction wraps to a
  value above the three-day bound, and nothing is scanned.
\<close>

theorem GetTradeHistory_inverted_range:
  assumes "unat toTime < unat fromTime"
    and "unat fromTime - unat toTime < 2 ^ 64 - 3 * 86400000"
  shows "GetTradeHistory c now d fromTime toTime =
           (\<lparr>CaptureTimestamp = now, Data = Map.empty\<rparr>, Some (ErrorString range_msg))"
proof -
  have "unat (toTime - fromTime) = 2 ^ 64 + unat toTime - unat fromTime"
    using assms(1) by (simp add: unat_sub_if_size word_size)
  with assms have "unat MAX_GET_TRADE_HISTORY < unat (toTime - fromTime)"
    by (simp add: MAX_GET_TRADE_HISTORY_def)
  then have "MAX_GET_TRADE_HISTORY < toTime - fromTime"
    by (simp add: word_less_nat_alt)
  then show ?thesis by (simp add: GetTradeHistory_def)
qed

theorem GetTradeHistory_inverted_range_witness:
  "unat (1000 :: 64 word) < unat (2000 :: 64 word) \<and>
   unat (2000 :: 64 word) - unat (1000 :: 64 word) < 2 ^ 64 - 3 * 86400000 \<and>
   GetTradeHistory plain_codec 7 example_db 2000 1000 =
     (\<lparr>CaptureTimestamp = 7, Data = Map.empty\<rparr>, Some (ErrorString range_msg))"
proof -
  have h1: "unat (1000 :: 64 word) < unat (2000 :: 64 word)" by simp
  have h2: "unat (2000 :: 64 word) - unat (1000 :: 64 word) < 2 ^ 64 - 3 * 86400000" by simp
  from GetTradeHistory_inverted_range [OF h1 h2, of plain_codec 7 example_db] h1 h2
  show ?thesis by simp
qed

section \<open>The exchange pool\<close>

lemma exchange_case_unrecognized:
  "\<not> recognized exparam \<Longrightarrow> exchange_case env exparam exchanges = Done (Inr exchanges)"
  by (simp add: recognized_def exchange_case_def)

lemma exchange_loop_filter:
  "exchange_loop env exparams exchanges = exchange_loop env (filter recognized exparams) exchanges"
  by (induction exparams arbitrary: exchanges)
     (auto simp: exchange_case_unrecognized split: outcome.splits sum.splits)

lemma exchange_loop_append:
  "exchange_loop env pre exchanges0 = Done (Inr exchanges) \<Longrightarrow>
   exchange_loop env (pre @ rest) exchanges0 = exchange_loop env rest exchanges"
  by (induction pre arbitrary: exchanges0)
     (auto split: outcome.splits sum.splits)

lemma provision_Done:
  "list_all (\<lambda>(tokenID, addr). \<not> isl (GetInternalTokenByID env tokenID)) assignments \<Longrightarrow>
   provision env ex assignments = Done ()"
  by (induction assignments)
     (auto simp: AsyncUpdateDepositAddress_def split: sum.splits)

lemma provision_Panic:
  "(tokenID, addr) \<in> set assignments \<Longrightarrow> GetInternalTokenByID env tokenID = Inl err \<Longrightarrow>
   provision env ex assignments = Panic"
  by (induction assignments)
     (auto simp: AsyncUpdateDepositAddress_def split: sum.splits outcome.splits)

text \<open>
  C7. A requested name without a case in the switch is skipped without an error:
  \<^verbatim>\<open>NewExchangePool\<close> on any request is the loop over the recognized names of the request
  alone. For the request \<^verbatim>\<open>binance,unknown_exchange\<close>, when the binance ledger opens, the
  adapter is constructed and every configured token resolves, the registry holds the
  binance adapter under its identity and nothing else, and no error is returned.
\<close>

theorem NewExchangePool_skips_unknown:
  "NewExchangePool env params =
     exchange_loop env (filter recognized (split_comma [] params)) Map.empty \<and>
   (open_ledger env ''binance.db'' = Inr storage \<longrightarrow> NewBinance env storage = Inr bin \<longrightarrow>
    list_all (\<lambda>(tokenID, addr). \<not> isl (GetInternalTokenByID env tokenID))
      (deposit_addresses env ''binance'') \<longrightarrow>
    NewExchangePool env ''binance,unknown_exchange'' = Done (Inr [adapter_ID env bin \<mapsto> bin]))"
proof (intro conjI impI)
  show "NewExchangePool env params =
     exchange_loop env (filter recognized (split_comma [] params)) Map.empty"
    unfolding NewExchangePool_def by (rule exchange_loop_filter)
next
  assume "open_ledger env ''binance.db'' = Inr storage" "NewBinance env storage = Inr bin"
    "list_all (\<lambda>(tokenID, addr). \<not> isl (GetInternalTokenByID env tokenID))
      (deposit_addresses env ''binance'')"
  then have "exchange_case env ''binance'' Map.empty = Done (Inr [adapter_ID env bin \<mapsto> bin])"
    by (simp add: exchange_case_def ledger_exchange_def provision_Done)
  moreover have "split_comma [] ''binance,unknown_exchange'' = [''binance'', ''unknown_exchange'']"
    by simp
  moreover have "exchange_case env ''unknown_exchange'' ex = Done (Inr ex)" for ex
    by (simp add: exchange_case_def)
  ultimately show "NewExchangePool env ''binance,unknown_exchange'' =
      Done (Inr [adapter_ID env bin \<mapsto> bin])"
    by (simp add: NewExchangePool_def)
qed

theorem NewExchangePool_skips_unknown_witness:
  "open_ledger (pool_env [''ETH'', ''KNC'']) ''binance.db'' = Inr ''binance.db'' \<and>
   NewBinance (pool_env [''ETH'', ''KNC'']) ''binance.db'' = Inr ''binance'' \<and>
   list_all (\<lambda>(tokenID, addr). \<not> isl (GetInternalTokenByID (pool_env [''ETH'', ''KNC'']) tokenID))
     (deposit_addresses (pool_env [''ETH'', ''KNC'']) ''binance'') \<and>
   NewExchangePool (pool_env [''ETH'', ''KNC'']) ''binance,unknown_exchange'' =
     Done (Inr [''binance'' \<mapsto> ''binance''])"
proof -
  let ?env = "pool_env [''ETH'', ''KNC'']"
  have h1: "open_ledger ?env ''binance.db'' = Inr ''binance.db''"
    and h2: "NewBinance ?env ''binance.db'' = Inr ''binance''"
    and h3: "list_all (\<lambda>(tokenID, addr). \<not> isl (GetInternalTokenByID ?env tokenID))
               (deposit_addresses ?env ''binance'')"
    by (simp_all add: pool_env_def)
  from NewExchangePool_skips_unknown [of ?env "''''" "''binance.db''" "''binance''"] h1 h2 h3
  show ?thesis by (simp add: pool_env_def)
qed

text \<open>
  C8. The failures of the bootstrap differ in severity. Let the names before \<open>exparam\<close> in
  the request be bootstrapped without a failure. If \<open>exparam\<close> is one of the exchanges with a
  ledger file, then a failure to open the file ends in a panic; with the file open, a
  failure of the adapter constructor makes \<^verbatim>\<open>NewExchangePool\<close> return that error; and
  with the adapter constructed, one configured token that does not resolve ends in a
  panic. A failure of the stable-exchange constructor is returned as well. In none of
  these cases is a registry returned.
\<close>

theorem bootstrap_failure_severity:
  assumes "exchange_loop env pre Map.empty = Done (Inr exchanges)"
    and "(exparam, file, construct) \<in>
           {(''bittrex'', ''bittrex.db'', NewBittrex env),
            (''binance'', ''binance.db'', NewBinance env),
            (''huobi'', ''huobi.db'', NewHuobi env)}"
  shows "(\<forall>params err. split_comma [] params = pre @ exparam # post \<longrightarrow>
            open_ledger env file = Inl err \<longrightarrow> NewExchangePool env params = Panic) \<and>
         (\<forall>params storage err. split_comma [] params = pre @ exparam # post \<longrightarrow>
            open_ledger env file = Inr storage \<longrightarrow> construct storage = Inl err \<longrightarrow>
            NewExchangePool env params = Done (Inl err)) \<and>
         (\<forall>params storage ex tokenID addr err. split_comma [] params = pre @ exparam # post \<longrightarrow>
            open_ledger env file = Inr storage \<longrightarrow> construct storage = Inr ex \<longrightarrow>
            (tokenID, addr) \<in> set (deposit_addresses env exparam) \<longrightarrow>
            GetInternalTokenByID env tokenID = Inl err \<longrightarrow>
            NewExchangePool env params = Panic) \<and>
         (\<forall>params err. split_comma [] params = pre @ ''stable_exchange'' # post \<longrightarrow>
            NewStableEx env = Inl err \<longrightarrow> NewExchangePool env params = Done (Inl err))"
proof -
  have step: "exchange_case env exparam exchanges = ledger_exchange env file construct exparam exchanges"
    using assms(2) by (auto simp: exchange_case_def)
  have loop: "exchange_loop env (pre @ rest) Map.empty = exchange_loop env rest exchanges" for rest
    using assms(1) by (rule exchange_loop_append)
  show ?thesis
  proof (intro conjI allI impI)
    fix params err
    assume "split_comma [] params = pre @ exparam # post" "open_ledger env file = Inl err"
    then show "NewExchangePool env params = Panic"
      by (simp add: NewExchangePool_def loop step ledger_exchange_def)
  next
    fix params storage err
    assume "split_comma [] params = pre @ exparam # post" "open_ledger env file = Inr storage"
      "construct storage = Inl err"
    then show "NewExchangePool env params = Done (Inl err)"
      by (simp add: NewExchangePool_def loop step ledger_exchange_def)
  next
    fix params storage ex tokenID addr err
    assume sp: "split_comma [] params = pre @ exparam # post"
      and op: "open_ledger env file = Inr storage" "construct storage = Inr ex"
      and tk: "(tokenID, addr) \<in> set (deposit_addresses env exparam)"
        "GetInternalTokenByID env tokenID = Inl err"
    from tk have "provision env ex (deposit_addresses env exparam) = Panic"
      by (rule provision_Panic)
    with sp op show "NewExchangePool env params = Panic"
      by (simp add: NewExchangePool_def loop step ledger_exchange_def)
  next
    fix params err
    assume "split_comma [] params = pre @ ''stable_exchange'' # post" "NewStableEx env = Inl err"
    then show "NewExchangePool env params = Done (Inl err)"
      by (simp add: NewExchangePool_def loop exchange_case_def)
  qed
qed

theorem bootstrap_failure_severity_witness:
  "exchange_loop (pool_env [''ETH'']) [''unknown_exchange''] Map.empty = Done (Inr Map.empty) \<and>
   NewExchangePool (pool_env [''ETH'']) ''unknown_exchange,bittrex,binance'' = Panic \<and>
   NewExchangePool (pool_env [''ETH'']) ''unknown_exchange,huobi,binance'' =
     Done (Inl (ErrorString ''huobi'')) \<and>
   NewExchangePool (pool_env [''ETH'']) ''unknown_exchange,binance,huobi'' = Panic \<and>
   NewExchangePool (pool_env [''ETH'']) ''unknown_exchange,stable_exchange,binance'' =
     Done (Inl (ErrorString ''stable''))"
proof -
  let ?env = "pool_env [''ETH'']"
  have pre: "exchange_loop ?env [''unknown_exchange''] Map.empty = Done (Inr Map.empty)"
    by (simp add: exchange_case_def)
  have s1: "split_comma [] ''unknown_exchange,bittrex,binance'' =
              [''unknown_exchange''] @ ''bittrex'' # [''binance'']"
    and s2: "split_comma [] ''unknown_exchange,huobi,binance'' =
              [''unknown_exchange''] @ ''huobi'' # [''binance'']"
    and s3: "split_comma [] ''unknown_exchange,binance,huobi'' =
              [''unknown_exchange''] @ ''binance'' # [''huobi'']"
    and s4: "split_comma [] ''unknown_exchange,stable_exchange,binance'' =
              [''unknown_exchange''] @ ''stable_exchange'' # [''binance'']"
    by simp_all
  have m1: "(''bittrex'', ''bittrex.db'', NewBittrex ?env) \<in>
           {(''bittrex'', ''bittrex.db'', NewBittrex ?env),
            (''binance'', ''binance.db'', NewBinance ?env),
            (''huobi'', ''huobi.db'', NewHuobi ?env)}"
    and m2: "(''huobi'', ''huobi.db'', NewHuobi ?env) \<in>
           {(''bittrex'', ''bittrex.db'', NewBittrex ?env),
            (''binance'', ''binance.db'', NewBinance ?env),
            (''huobi'', ''huobi.db'', NewHuobi ?env)}"
    and m3: "(''binance'', ''binance.db'', NewBinance ?env) \<in>
           {(''bittrex'', ''bittrex.db'', NewBittrex ?env),
            (''binance'', ''binance.db'', NewBinance ?env),
            (''huobi'', ''huobi.db'', NewHuobi ?env)}"
    by simp_all
  have f1: "open_ledger ?env ''bittrex.db'' = Inl ErrEngineIO"
    and f2: "open_ledger ?env ''huobi.db'' = Inr ''huobi.db''"
      "NewHuobi ?env ''huobi.db'' = Inl (ErrorString ''huobi'')"
    and f3: "open_ledger ?env ''binance.db'' = Inr ''binance.db''"
      "NewBinance ?env ''binance.db'' = Inr ''binance''"
      "(''KNC'', ''0x02'') \<in> set (deposit_addresses ?env ''binance'')"
      "GetInternalTokenByID ?env ''KNC'' = Inl (ErrorString ''token'')"
    and f4: "NewStableEx ?env = Inl (ErrorString ''stable'')"
    by (simp_all add: pool_env_def)
  note sev1 = bootstrap_failure_severity [OF pre m1, of "[''binance'']"]
  note sev2 = bootstrap_failure_severity [OF pre m2, of "[''binance'']"]
  note sev3 = bootstrap_failure_severity [OF pre m3, of "[''huobi'']"]
  have "NewExchangePool ?env ''unknown_exchange,bittrex,binance'' = Panic"
    using sev1 [THEN conjunct1, rule_format, OF s1 f1] .
  moreover have "NewExchangePool ?env ''unknown_exchange,huobi,binance'' =
      Done (Inl (ErrorString ''huobi''))"
    using sev2 [THEN conjunct2, THEN conjunct1, rule_format, OF s2 f2] .
  moreover have "NewExchangePool ?env ''unknown_exchange,binance,huobi'' = Panic"
    using sev3 [THEN conjunct2, THEN conjunct2, THEN conjunct1, rule_format, OF s3 f3] .
  moreover have "NewExchangePool ?env ''unknown_exchange,stable_exchange,binance'' =
      Done (Inl (ErrorString ''stable''))"
    using sev1 [THEN conjunct2, THEN conjunct2, THEN conjunct2, rule_format, OF s4 f4] .
  ultimately show ?thesis using pre by simp
qed

section \<open>Writing and deleting in a bucket\<close>

lemma Seek_bucket_put: "\<exists>rest. Seek key (bucket_put key e b) = (key, e) # rest"
  by (induction b) (auto simp: Seek_def)

lemma bucket_get_put_same: "bucket_get key (bucket_put key e b) = Some e"
  using Seek_bucket_put [of key e b] by (auto simp: bucket_get_def)

lemma map_of_bucket_put: "map_of (bucket_put key e b) = (map_of b)(key \<mapsto> e)"
  by (induction b) (auto simp: fun_eq_iff)

lemma set_bucket_put:
  "set (bucket_put key e b) \<subseteq> insert (key, e) (set b)"
  by (induction b) (auto split: if_splits)

lemma fst_set_bucket_put:
  "fst ` set (bucket_put key e b) = insert key (fst ` set b)"
proof -
  have "fst ` set (bucket_put key e b) = dom (map_of (bucket_put key e b))"
    by (simp add: dom_map_of_conv_image_fst)
  also have "\<dots> = insert key (dom (map_of b))"
    by (simp add: map_of_bucket_put)
  finally show ?thesis by (simp add: dom_map_of_conv_image_fst)
qed

lemma sorted_keys_bucket_put: "sorted_keys b \<Longrightarrow> sorted_keys (bucket_put key e b)"
proof (induction b)
  case Nil
  show ?case by (simp add: sorted_keys_def)
next
  case (Cons x b)
  obtain k e' where x: "x = (k, e')" by (cases x)
  from Cons.prems have above: "\<forall>(k', e'') \<in> set b. k < k'" and sb: "sorted_keys b"
    by (simp_all add: x sorted_keys_Cons)
  show ?case
  proof (cases "k < key")
    case True
    have "\<forall>(k', e'') \<in> set (bucket_put key e b). k < k'"
      using above True set_bucket_put [of key e b] by auto
    with True Cons.IH [OF sb] show ?thesis by (simp add: x sorted_keys_Cons)
  next
    case False
    show ?thesis
    proof (cases "k = key")
      case True
      with above sb show ?thesis by (simp add: x sorted_keys_Cons)
    next
      case ne: False
      with False have "key < k" by simp
      with above sb show ?thesis by (auto simp: x sorted_keys_Cons)
    qed
  qed
qed

lemma bucket_get_map_of: "sorted_keys b \<Longrightarrow> bucket_get key b = map_of b key"
proof (induction b)
  case Nil
  show ?case by (simp add: bucket_get_def Seek_def)
next
  case (Cons x b)
  obtain k e where x: "x = (k, e)" by (cases x)
  from Cons.prems have above: "\<forall>(k', e') \<in> set b. k < k'" and sb: "sorted_keys b"
    by (simp_all add: x sorted_keys_Cons)
  show ?case
  proof (cases "k < key")
    case True
    with Cons.IH [OF sb] show ?thesis by (auto simp: x bucket_get_def Seek_def)
  next
    case False
    show ?thesis
    proof (cases "k = key")
      case True
      then show ?thesis by (simp add: x bucket_get_def Seek_def)
    next
      case ne: False
      with False have "key < k" by simp
      with above have "key \<notin> fst ` set b" by auto
      then have "map_of b key = None" by (simp add: map_of_eq_None_iff)
      with ne False show ?thesis by (simp add: x bucket_get_def Seek_def)
    qed
  qed
qed

lemma bucket_put_same: "bucket_get key b = Some e \<Longrightarrow> bucket_put key e b = b"
  by (induction b) (auto simp: bucket_get_def Seek_def split: if_splits)

lemma set_bucket_del: "set (bucket_del key b) \<subseteq> set b"
  by (induction b) (auto split: if_splits)

lemma sorted_keys_bucket_del: "sorted_keys b \<Longrightarrow> sorted_keys (bucket_del key b)"
proof (induction b)
  case Nil
  show ?case by (simp add: sorted_keys_def)
next
  case (Cons x b)
  obtain k e' where x: "x = (k, e')" by (cases x)
  from Cons.prems have above: "\<forall>(k', e'') \<in> set b. k < k'" and sb: "sorted_keys b"
    by (simp_all add: x sorted_keys_Cons)
  have "\<forall>(k', e'') \<in> set (bucket_del key b). k < k'"
    using above set_bucket_del [of key b] by auto
  with Cons.IH [OF sb] Cons.prems sb show ?case by (simp add: x sorted_keys_Cons)
qed

lemma map_of_bucket_del:
  "sorted_keys b \<Longrightarrow> map_of (bucket_del key b) = (map_of b)(key := None)"
proof (induction b)
  case Nil
  show ?case by simp
next
  case (Cons x b)
  obtain k e' where x: "x = (k, e')" by (cases x)
  from Cons.prems have above: "\<forall>(k', e'') \<in> set b. k < k'" and sb: "sorted_keys b"
    by (simp_all add: x sorted_keys_Cons)
  show ?case
  proof (cases "k < key")
    case True
    with Cons.IH [OF sb] show ?thesis by (auto simp: x fun_eq_iff)
  next
    case False
    have none: "k' \<le> k \<Longrightarrow> map_of b k' = None" for k'
      using above by (fastforce simp: map_of_eq_None_iff)
    show ?thesis
    proof (cases "k = key")
      case True
      with none [of key] show ?thesis by (auto simp: x fun_eq_iff)
    next
      case ne: False
      with False have "key < k" by simp
      with none [of key] ne False show ?thesis by (auto simp: x fun_eq_iff)
    qed
  qed
qed

lemma one_entry_per_key:
  "distinct (map fst b) \<Longrightarrow> map_of b key = Some e \<Longrightarrow>
   filter (\<lambda>(k, e'). k = key) b = [(key, e)]"
proof (induction b)
  case Nil
  then show ?case by simp
next
  case (Cons x b)
  obtain k e' where x: "x = (k, e')" by (cases x)
  show ?case
  proof (cases "k = key")
    case True
    with Cons.prems have "key \<notin> fst ` set b" by (simp add: x)
    then have "filter (\<lambda>(k, e'). k = key) b = []"
      by (force simp: filter_empty_conv)
    with True Cons.prems show ?thesis by (simp add: x)
  next
    case False
    with Cons show ?thesis by (simp add: x)
  qed
qed

section \<open>Confirmed transactions\<close>

text \<open>
  When the update transaction of \<^verbatim>\<open>StoreIntermediateTx\<close> succeeds: the entry encodes, the
  key is not empty, key and value are within the limits of the engine, the key does not
  hold a nested bucket, and the engine commits.
\<close>

lemma StoreIntermediateTx_update_succeeds:
  assumes "marshal_tx c tx = Inr dataJson"
    and "ToBytes c aid \<noteq> []" and "length (ToBytes c aid) \<le> MaxKeySize"
    and "length dataJson \<le> MaxValueSize"
    and "list_all (\<lambda>(k, e). \<not> is_bucket e) (INTERMEDIATE_TX d)"
  shows "StoreIntermediateTx_update c None aid tx d =
           (None, None, d\<lparr>INTERMEDIATE_TX :=
              bucket_put (ToBytes c aid) (Val dataJson) (INTERMEDIATE_TX d)\<rparr>)"
proof -
  have "bucket_get (ToBytes c aid) (INTERMEDIATE_TX d) \<noteq> Some (Sub x)" for x
  proof
    assume g: "bucket_get (ToBytes c aid) (INTERMEDIATE_TX d) = Some (Sub x)"
    have "set (Seek (ToBytes c aid) (INTERMEDIATE_TX d)) \<subseteq> set (INTERMEDIATE_TX d)"
      unfolding Seek_def by (rule set_dropWhileD [THEN subsetI])
    with g have "(ToBytes c aid, Sub x) \<in> set (INTERMEDIATE_TX d)"
      by (auto simp: bucket_get_def split: list.splits if_splits)
    with assms(5) show False by (auto simp: list_all_iff)
  qed
  with assms(1-4) show ?thesis
    by (auto simp: StoreIntermediateTx_update_def Update_def Put_def
        split: option.splits entry.splits)
qed

text \<open>
  What holds of the confirmed partition. If the update transaction of
  \<^verbatim>\<open>StoreIntermediateTx\<close> returns no error (the put is accepted and committed) and the entry
  survives its encoding, then \<^verbatim>\<open>GetIntermedatorTx\<close> on the same identifier returns the
  entry. And when the binary encoding of an identifier, which is not empty, is not a key of
  the confirmed partition, \<^verbatim>\<open>GetIntermedatorTx\<close> returns the error that asks to try later:
  the key at the seek position, if any, differs from the target. The first half is about
  the result of \<^verbatim>\<open>Update\<close>, which \<^verbatim>\<open>StoreIntermediateTx\<close> does not return.
\<close>

lemma intermediate_tx_get_after_store:
  "(StoreIntermediateTx_update c commit aid tx d = (None, err, d') \<longrightarrow>
    marshal_tx c tx = Inr dataJson \<longrightarrow> unmarshal_tx c dataJson = (None, tx) \<longrightarrow>
      StoreIntermediateTx c commit aid tx d = (None, d') \<and>
      GetIntermedatorTx c aid d' = (tx, None)) \<and>
   (ToBytes c aid \<noteq> [] \<longrightarrow> ToBytes c aid \<notin> fst ` set (INTERMEDIATE_TX d) \<longrightarrow>
      GetIntermedatorTx c aid d = (zero_tx c, Some (ErrorString not_found_msg)))"
proof (intro conjI impI)
  assume up: "StoreIntermediateTx_update c commit aid tx d = (None, err, d')"
    and enc: "marshal_tx c tx = Inr dataJson" and dec: "unmarshal_tx c dataJson = (None, tx)"
  from up enc have d': "d' = d\<lparr>INTERMEDIATE_TX :=
      bucket_put (ToBytes c aid) (Val dataJson) (INTERMEDIATE_TX d)\<rparr>" and err: "err = None"
    by (auto simp: StoreIntermediateTx_update_def Update_def Put_def
        split: sum.splits option.splits if_splits entry.splits)
  show "StoreIntermediateTx c commit aid tx d = (None, d')"
    using up err by (simp add: StoreIntermediateTx_def)
  from Seek_bucket_put [of "ToBytes c aid" "Val dataJson" "INTERMEDIATE_TX d"]
  obtain rest where "Seek (ToBytes c aid) (INTERMEDIATE_TX d') = (ToBytes c aid, Val dataJson) # rest"
    by (auto simp: d')
  then show "GetIntermedatorTx c aid d' = (tx, None)"
    by (simp add: GetIntermedatorTx_def View_def isTheSame_eq dec)
next
  assume ne: "ToBytes c aid \<noteq> []" and absent: "ToBytes c aid \<notin> fst ` set (INTERMEDIATE_TX d)"
  have sub: "set (Seek (ToBytes c aid) (INTERMEDIATE_TX d)) \<subseteq> set (INTERMEDIATE_TX d)"
    unfolding Seek_def by (rule set_dropWhileD [THEN subsetI])
  show "GetIntermedatorTx c aid d = (zero_tx c, Some (ErrorString not_found_msg))"
  proof (cases "Seek (ToBytes c aid) (INTERMEDIATE_TX d)")
    case Nil
    with ne show ?thesis
      by (auto simp: GetIntermedatorTx_def View_def isTheSame_eq)
  next
    case (Cons x rest)
    obtain k e where x: "x = (k, e)" by (cases x)
    from Cons sub have "(k, e) \<in> set (INTERMEDIATE_TX d)" by (auto simp: x)
    with absent have "k \<noteq> ToBytes c aid" by force
    with Cons show ?thesis
      by (simp add: x GetIntermedatorTx_def View_def isTheSame_eq)
  qed
qed

lemma intermediate_tx_get_after_store_example:
  "StoreIntermediateTx_update plain_codec None example_id example_tx example_db =
     (None, None, example_db\<lparr>INTERMEDIATE_TX := [(ToBytes plain_codec example_id, Val example_tx)]\<rparr>) \<and>
   marshal_tx plain_codec example_tx = Inr example_tx \<and>
   unmarshal_tx plain_codec example_tx = (None, example_tx) \<and>
   GetIntermedatorTx plain_codec example_id
     (example_db\<lparr>INTERMEDIATE_TX := [(ToBytes plain_codec example_id, Val example_tx)]\<rparr>) =
     (example_tx, None) \<and>
   ToBytes plain_codec example_id \<noteq> [] \<and>
   ToBytes plain_codec example_id \<notin> fst ` set (INTERMEDIATE_TX example_db) \<and>
   GetIntermedatorTx plain_codec example_id example_db = ([], Some (ErrorString not_found_msg))"
proof -
  let ?d' = "example_db\<lparr>INTERMEDIATE_TX := [(ToBytes plain_codec example_id, Val example_tx)]\<rparr>"
  have ne: "ToBytes plain_codec example_id \<noteq> []"
    by (simp add: plain_codec_def example_id_def)
  have len: "length example_tx \<le> MaxValueSize" "length (ToBytes plain_codec example_id) \<le> MaxKeySize"
    by (simp_all add: plain_codec_def example_id_def example_tx_def MaxValueSize_def MaxKeySize_def)
  have h2: "marshal_tx plain_codec example_tx = Inr example_tx"
    and h3: "unmarshal_tx plain_codec example_tx = (None, example_tx)"
    by (simp_all add: plain_codec_def)
  have e: "INTERMEDIATE_TX example_db = []"
    by (simp add: example_db_def empty_db_def)
  have put: "Put (ToBytes plain_codec example_id) example_tx [] =
      Inr [(ToBytes plain_codec example_id, Val example_tx)]"
    using ne len by (simp add: Put_def bucket_get_def Seek_def)
  have h1: "StoreIntermediateTx_update plain_codec None example_id example_tx example_db = (None, None, ?d')"
    by (simp add: StoreIntermediateTx_update_def Update_def h2 e put)
  have h4: "ToBytes plain_codec example_id \<notin> fst ` set (INTERMEDIATE_TX example_db)"
    by (simp add: example_db_def empty_db_def)
  note T = intermediate_tx_get_after_store [of plain_codec None example_id example_tx example_db
      None ?d' example_tx]
  from T h1 h2 h3 ne h4 show ?thesis
    by (simp add: plain_codec_def)
qed

section \<open>Errors of the engine that do not reach the caller\<close>

lemma RemovePendingIntermediateTx_returns_nil:
  "fst (RemovePendingIntermediateTx c commit aid d) = None"
  by (simp add: RemovePendingIntermediateTx_def split: prod.splits)

text \<open>
  C9. A ledger operation is to hand an error of the storage engine to its caller. Two
  operations do not. Creating a bucket with the empty name fails with
  \<^verbatim>\<open>ErrBucketNameRequired\<close>, yet \<^verbatim>\<open>StoreTradeHistory\<close> on a snapshot that names the empty
  exchange (with no pairs), or the empty pair (with no records), returns no error; and
  \<^verbatim>\<open>RemovePendingIntermediateTx\<close> returns no error when the commit of its delete
  transaction fails and the entry is still in the store.
\<close>

theorem engine_errors_dropped:
  "CreateBucketIfNotExists [] (TRADE_HISTORY example_db) = Inl ErrBucketNameRequired \<and>
   StoreTradeHistory plain_codec None [([], [])] example_db = Done (None, example_db) \<and>
   StoreTradeHistory plain_codec None [(binance_id, [([], [])])] example_db =
     Done (None, example_db) \<and>
   StorePendingIntermediateTx plain_codec None example_id example_tx example_db =
     (None, example_db\<lparr>PENDING_INTERMEDIATE_TX := [(example_id, Val example_tx)]\<rparr>) \<and>
   RemovePendingIntermediateTx plain_codec (Some ErrEngineIO) example_id
     (example_db\<lparr>PENDING_INTERMEDIATE_TX := [(example_id, Val example_tx)]\<rparr>) =
     (None, example_db\<lparr>PENDING_INTERMEDIATE_TX := [(example_id, Val example_tx)]\<rparr>)"
proof -
  have c1: "CreateBucketIfNotExists [] b = Inl ErrBucketNameRequired" for b
    by (simp add: CreateBucketIfNotExists_def)
  have t: "TRADE_HISTORY example_db =
      [(binance_id, Sub [(eth_knc, Sub [stored_trade 1 1000, stored_trade 2 2000, stored_trade 3 3000])])]"
    and p: "PENDING_INTERMEDIATE_TX example_db = []"
    by (simp_all add: example_db_def empty_db_def)
  have bn: "binance_id \<noteq> []" by (simp add: binance_id_def)
  have c2: "CreateBucketIfNotExists binance_id (TRADE_HISTORY example_db) =
      Inr ([(eth_knc, Sub [stored_trade 1 1000, stored_trade 2 2000, stored_trade 3 3000])],
           TRADE_HISTORY example_db)"
    using bn by (simp add: CreateBucketIfNotExists_def t bucket_get_def Seek_def)
  have same: "put_sub binance_id
      [(eth_knc, Sub [stored_trade 1 1000, stored_trade 2 2000, stored_trade 3 3000])]
      (TRADE_HISTORY example_db) = TRADE_HISTORY example_db"
    by (simp add: put_sub_def t)
  have s1: "StoreTradeHistory plain_codec None [([], [])] example_db = Done (None, example_db)"
    by (simp add: StoreTradeHistory_def c1 Update_def)
  have s2: "StoreTradeHistory plain_codec None [(binance_id, [([], [])])] example_db =
      Done (None, example_db)"
    by (simp add: StoreTradeHistory_def c1 c2 same Update_def)
  have len: "example_id \<noteq> []" "length example_id \<le> MaxKeySize" "length example_tx \<le> MaxValueSize"
    by (simp_all add: example_id_def example_tx_def MaxKeySize_def MaxValueSize_def)
  then have put: "Put example_id example_tx [] = Inr [(example_id, Val example_tx)]"
    by (simp add: Put_def bucket_get_def Seek_def)
  have s3: "StorePendingIntermediateTx plain_codec None example_id example_tx example_db =
      (None, example_db\<lparr>PENDING_INTERMEDIATE_TX := [(example_id, Val example_tx)]\<rparr>)"
    by (simp add: StorePendingIntermediateTx_def Update_def plain_codec_def p put)
  have s4: "RemovePendingIntermediateTx plain_codec (Some ErrEngineIO) example_id
     (example_db\<lparr>PENDING_INTERMEDIATE_TX := [(example_id, Val example_tx)]\<rparr>) =
     (None, example_db\<lparr>PENDING_INTERMEDIATE_TX := [(example_id, Val example_tx)]\<rparr>)"
    by (simp add: RemovePendingIntermediateTx_def Update_def plain_codec_def Delete_def Seek_def)
  from c1 s1 s2 s3 s4 show ?thesis by simp
qed

section \<open>Pending transactions\<close>

lemma wf_pending_Cons:
  "wf_pending c ((k, e) # b) =
     ((\<forall>(k', e') \<in> set b. k < k') \<and> \<not> is_bucket e \<and> fst (unmarshal_id c k) = None \<and>
      marshal_id c (snd (unmarshal_id c k)) = Inr k \<and>
      fst (unmarshal_tx c (cursor_value e)) = None \<and> wf_pending c b)"
  by (auto simp: wf_pending_def sorted_keys_Cons)

lemma pending_scan_wf:
  assumes "wf_pending c b"
  shows "pending_scan c b acc =
           (None, \<lambda>i. case pending_entry c b i of None \<Rightarrow> acc i | Some r \<Rightarrow> Some r)"
  using assms
proof (induction b arbitrary: acc)
  case Nil
  show ?case by (auto simp: pending_entry_def fun_eq_iff split: sum.splits)
next
  case (Cons x b)
  obtain k e where x: "x = (k, e)" by (cases x)
  from Cons.prems have above: "\<forall>(k', e') \<in> set b. k < k'"
    and kd: "fst (unmarshal_id c k) = None" and canon: "marshal_id c (snd (unmarshal_id c k)) = Inr k"
    and vd: "fst (unmarshal_tx c (cursor_value e)) = None" and wb: "wf_pending c b"
    by (simp_all add: x wf_pending_Cons)
  obtain i' where i': "unmarshal_id c k = (None, i')" using kd by (cases "unmarshal_id c k") simp
  obtain r' where r': "unmarshal_tx c (cursor_value e) = (None, r')"
    using vd by (cases "unmarshal_tx c (cursor_value e)") simp
  from canon i' have mi': "marshal_id c i' = Inr k" by simp
  from above have "k \<notin> fst ` set b" by force
  then have none: "map_of b k = None" by (simp add: map_of_eq_None_iff)
  have eq: "(case pending_entry c b i of None \<Rightarrow> (acc(i' \<mapsto> r')) i | Some r \<Rightarrow> Some r) =
        (case pending_entry c ((k, e) # b) i of None \<Rightarrow> acc i | Some r \<Rightarrow> Some r)" for i
  proof (cases "marshal_id c i")
    case (Inl err)
    with mi' have "i \<noteq> i'" by auto
    with Inl show ?thesis by (simp add: pending_entry_def)
  next
    case (Inr k2)
    show ?thesis
    proof (cases "k2 = k")
      case True
      with Inr none i' r' show ?thesis by (auto simp: pending_entry_def)
    next
      case False
      with Inr mi' have "i \<noteq> i'" by auto
      with Inr False show ?thesis by (auto simp: pending_entry_def split: option.splits)
    qed
  qed
  have "pending_scan c (x # b) acc = pending_scan c b (acc(i' \<mapsto> r'))"
    by (simp add: x i' r')
  also have "\<dots> = (None, \<lambda>i. case pending_entry c b i of
      None \<Rightarrow> (acc(i' \<mapsto> r')) i | Some r \<Rightarrow> Some r)"
    by (rule Cons.IH [OF wb])
  also have "\<dots> = (None, \<lambda>i. case pending_entry c (x # b) i of
      None \<Rightarrow> acc i | Some r \<Rightarrow> Some r)"
    unfolding x using eq by (simp only:)
  finally show ?case .
qed

lemma GetPendingIntermediateTXs_wf:
  "wf_pending c (PENDING_INTERMEDIATE_TX d) \<Longrightarrow>
   GetPendingIntermediateTXs c d = (pending_entry c (PENDING_INTERMEDIATE_TX d), None)"
  by (simp add: GetPendingIntermediateTXs_def View_def pending_scan_wf fun_eq_iff
      split: option.splits)

lemma wf_pending_put:
  assumes "wf_pending c b" and "unmarshal_id c k = (None, i)" and "marshal_id c i = Inr k"
    and "fst (unmarshal_tx c v) = None"
  shows "wf_pending c (bucket_put k (Val v) b)"
proof -
  have "list_all (\<lambda>(k, e). \<not> is_bucket e \<and> fst (unmarshal_id c k) = None \<and>
                  marshal_id c (snd (unmarshal_id c k)) = Inr k \<and>
                  fst (unmarshal_tx c (cursor_value e)) = None) (bucket_put k (Val v) b)"
    unfolding list_all_iff
  proof
    fix x assume "x \<in> set (bucket_put k (Val v) b)"
    with set_bucket_put [of k "Val v" b] have "x = (k, Val v) \<or> x \<in> set b" by auto
    with assms show "case x of (k, e) \<Rightarrow> \<not> is_bucket e \<and> fst (unmarshal_id c k) = None \<and>
                  marshal_id c (snd (unmarshal_id c k)) = Inr k \<and>
                  fst (unmarshal_tx c (cursor_value e)) = None"
      by (auto simp: wf_pending_def list_all_iff)
  qed
  with assms(1) show ?thesis by (simp add: wf_pending_def sorted_keys_bucket_put)
qed

lemma wf_pending_del: "wf_pending c b \<Longrightarrow> wf_pending c (bucket_del k b)"
  using set_bucket_del [of k b]
  by (auto simp: wf_pending_def list_all_iff sorted_keys_bucket_del)

lemma Delete_no_bucket:
  assumes "list_all (\<lambda>(k, e). \<not> is_bucket e) b"
  shows "Delete key b = Inr (bucket_del key b)"
proof (cases "Seek key b")
  case Nil
  then show ?thesis by (simp add: Delete_def)
next
  case (Cons x rest)
  obtain k e where x: "x = (k, e)" by (cases x)
  have "set (Seek key b) \<subseteq> set b" unfolding Seek_def by (rule set_dropWhileD [THEN subsetI])
  with Cons have "(k, e) \<in> set b" by (auto simp: x)
  with assms have "\<not> is_bucket e" by (auto simp: list_all_iff)
  then obtain v where "e = Val v" by (cases e) auto
  with Cons show ?thesis by (simp add: Delete_def x)
qed

lemma pending_entry_put:
  assumes "marshal_id c aid = Inr idJson" "unmarshal_id c idJson = (None, aid)"
    and "unmarshal_tx c dataJson = (None, tx)"
  shows "pending_entry c (bucket_put idJson (Val dataJson) b) = (pending_entry c b)(aid \<mapsto> tx)"
proof
  fix i
  show "pending_entry c (bucket_put idJson (Val dataJson) b) i = ((pending_entry c b)(aid \<mapsto> tx)) i"
    using assms
    by (cases "marshal_id c i")
       (auto simp: pending_entry_def map_of_bucket_put split: option.splits)
qed

lemma pending_entry_del:
  assumes "sorted_keys b" and "marshal_id c aid = Inr idJson" "unmarshal_id c idJson = (None, aid)"
  shows "pending_entry c (bucket_del idJson b) = (pending_entry c b)(aid := None)"
proof
  fix i
  show "pending_entry c (bucket_del idJson b) i = ((pending_entry c b)(aid := None)) i"
    using assms(2,3)
    by (cases "marshal_id c i")
       (auto simp: pending_entry_def map_of_bucket_del [OF assms(1)] split: option.splits)
qed

text \<open>
  What holds of the pending partition, of the shape the ledger gives it, for an identifier
  and an entry that survive their encodings: after \<^verbatim>\<open>StorePendingIntermediateTx\<close> has
  returned no error, \<^verbatim>\<open>GetPendingIntermediateTXs\<close> returns the map it returned before with
  the binding of the identifier to the entry added; and after
  \<^verbatim>\<open>RemovePendingIntermediateTx\<close> in a transaction that commits, it returns that map
  without the identifier. The bindings of the other identifiers stay as they were. Whether
  the transaction of the remove has committed, the caller cannot tell.
\<close>

lemma pending_store_then_remove:
  assumes "wf_pending c (PENDING_INTERMEDIATE_TX d)"
    and "marshal_id c aid = Inr idJson" and "unmarshal_id c idJson = (None, aid)"
    and "marshal_tx c tx = Inr dataJson" and "unmarshal_tx c dataJson = (None, tx)"
    and "StorePendingIntermediateTx c commit aid tx d = (None, d1)"
    and "RemovePendingIntermediateTx c None aid d1 = (rerr, d2)"
  shows "GetPendingIntermediateTXs c d1 = ((fst (GetPendingIntermediateTXs c d))(aid \<mapsto> tx), None) \<and>
         GetPendingIntermediateTXs c d2 = ((fst (GetPendingIntermediateTXs c d1))(aid := None), None)"
proof -
  let ?b = "PENDING_INTERMEDIATE_TX d"
  let ?b1 = "bucket_put idJson (Val dataJson) ?b"
  from assms(2,4,6) have d1: "d1 = d\<lparr>PENDING_INTERMEDIATE_TX := ?b1\<rparr>"
    by (auto simp: StorePendingIntermediateTx_def Update_def Put_def
        split: option.splits if_splits entry.splits)
  have wf1: "wf_pending c ?b1"
    using assms(1,3,2) by (rule wf_pending_put) (simp add: assms(5))
  then have nb: "list_all (\<lambda>(k, e). \<not> is_bucket e) ?b1" and s1: "sorted_keys ?b1"
    by (auto simp: wf_pending_def list_all_iff)
  from assms(2,7) have d2: "d2 = d1\<lparr>PENDING_INTERMEDIATE_TX := bucket_del idJson ?b1\<rparr>"
    by (auto simp: RemovePendingIntermediateTx_def Update_def d1 Delete_no_bucket [OF nb])
  have wf2: "wf_pending c (bucket_del idJson ?b1)"
    using wf1 by (rule wf_pending_del)
  have g0: "GetPendingIntermediateTXs c d = (pending_entry c ?b, None)"
    using assms(1) by (rule GetPendingIntermediateTXs_wf)
  have g1: "GetPendingIntermediateTXs c d1 = (pending_entry c ?b1, None)"
    using wf1 by (simp add: GetPendingIntermediateTXs_wf d1)
  have g2: "GetPendingIntermediateTXs c d2 = (pending_entry c (bucket_del idJson ?b1), None)"
    using wf2 by (simp add: GetPendingIntermediateTXs_wf d2 d1)
  show ?thesis
    by (simp add: g0 g1 g2 pending_entry_put [OF assms(2,3,5)]
        pending_entry_del [OF s1 assms(2,3)])
qed

lemma pending_store_then_remove_example:
  "wf_pending plain_codec (PENDING_INTERMEDIATE_TX example_db) \<and>
   marshal_id plain_codec example_id = Inr example_id \<and>
   unmarshal_id plain_codec example_id = (None, example_id) \<and>
   marshal_tx plain_codec example_tx = Inr example_tx \<and>
   unmarshal_tx plain_codec example_tx = (None, example_tx) \<and>
   StorePendingIntermediateTx plain_codec None example_id example_tx example_db =
     (None, example_db\<lparr>PENDING_INTERMEDIATE_TX := [(example_id, Val example_tx)]\<rparr>) \<and>
   RemovePendingIntermediateTx plain_codec None example_id
     (example_db\<lparr>PENDING_INTERMEDIATE_TX := [(example_id, Val example_tx)]\<rparr>) = (None, example_db) \<and>
   GetPendingIntermediateTXs plain_codec example_db = (Map.empty, None) \<and>
   GetPendingIntermediateTXs plain_codec
     (example_db\<lparr>PENDING_INTERMEDIATE_TX := [(example_id, Val example_tx)]\<rparr>) =
     ([example_id \<mapsto> example_tx], None)"
proof -
  let ?d1 = "example_db\<lparr>PENDING_INTERMEDIATE_TX := [(example_id, Val example_tx)]\<rparr>"
  have p: "PENDING_INTERMEDIATE_TX example_db = []"
    by (simp add: example_db_def empty_db_def)
  have h1: "wf_pending plain_codec (PENDING_INTERMEDIATE_TX example_db)"
    by (simp add: p wf_pending_def sorted_keys_def)
  have h2: "marshal_id plain_codec example_id = Inr example_id"
    and h3: "unmarshal_id plain_codec example_id = (None, example_id)"
    and h4: "marshal_tx plain_codec example_tx = Inr example_tx"
    and h5: "unmarshal_tx plain_codec example_tx = (None, example_tx)"
    by (simp_all add: plain_codec_def)
  have len: "example_id \<noteq> []" "length example_id \<le> MaxKeySize" "length example_tx \<le> MaxValueSize"
    by (simp_all add: example_id_def example_tx_def MaxKeySize_def MaxValueSize_def)
  then have put: "Put example_id example_tx [] = Inr [(example_id, Val example_tx)]"
    by (simp add: Put_def bucket_get_def Seek_def)
  have h6: "StorePendingIntermediateTx plain_codec None example_id example_tx example_db = (None, ?d1)"
    by (simp add: StorePendingIntermediateTx_def Update_def h2 h4 p put)
  have h7: "RemovePendingIntermediateTx plain_codec None example_id ?d1 = (None, example_db)"
    by (simp add: RemovePendingIntermediateTx_def Update_def h2 Delete_def Seek_def)
       (simp add: example_db_def empty_db_def)
  have g0: "GetPendingIntermediateTXs plain_codec example_db = (Map.empty, None)"
    by (simp add: GetPendingIntermediateTXs_def View_def p)
  have g1: "GetPendingIntermediateTXs plain_codec ?d1 = ([example_id \<mapsto> example_tx], None)"
    using pending_store_then_remove [OF h1 h2 h3 h4 h5 h6 h7, THEN conjunct1]
    by (simp only: g0 fst_conv)
  show ?thesis by (intro conjI h1 h2 h3 h4 h5 h6 h7 g0 g1)
qed

section \<open>Storing trade history\<close>

lemma bucket_put_twice: "bucket_put key e2 (bucket_put key e1 b) = bucket_put key e2 b"
  by (induction b) auto

lemma map_of_bucket: "sorted_keys b \<Longrightarrow> map_of b key = Some e \<Longrightarrow> (key, e) \<in> set b"
  by (rule map_of_SomeD)

lemma CreateBucketIfNotExists_nested:
  assumes "sorted_keys b" and "list_all (\<lambda>(k, e). is_bucket e) b" and "name \<noteq> []"
  shows "CreateBucketIfNotExists name b =
           Inr (child_bucket name b, bucket_put name (Sub (child_bucket name b)) b)"
proof (cases "map_of b name")
  case None
  with assms show ?thesis
    by (simp add: CreateBucketIfNotExists_def bucket_get_map_of child_bucket_def)
next
  case (Some e)
  from map_of_SomeD [OF Some] assms(2) have "is_bucket e" by (auto simp: list_all_iff)
  then obtain child where e: "e = Sub child" by (cases e) auto
  from Some assms(1) have "bucket_get name b = Some (Sub child)"
    by (simp add: bucket_get_map_of e)
  then have "bucket_put name (Sub child) b = b" by (rule bucket_put_same)
  with Some assms show ?thesis
    by (simp add: CreateBucketIfNotExists_def bucket_get_map_of child_bucket_def e)
qed

lemma wf_pair_Nil: "wf_pair []"
  by (simp add: wf_pair_def sorted_keys_def)

lemma wf_exchange_Nil: "wf_exchange []"
  by (simp add: wf_exchange_def sorted_keys_def)

lemma wf_pair_put:
  assumes "wf_pair pairBk" and "length key = 8"
  shows "wf_pair (bucket_put key (Val v) pairBk)"
proof -
  have "list_all (\<lambda>(k, e). length k = 8 \<and> \<not> is_bucket e) (bucket_put key (Val v) pairBk)"
    unfolding list_all_iff
  proof
    fix x assume "x \<in> set (bucket_put key (Val v) pairBk)"
    with set_bucket_put [of key "Val v" pairBk] have "x = (key, Val v) \<or> x \<in> set pairBk" by auto
    with assms show "case x of (k, e) \<Rightarrow> length k = 8 \<and> \<not> is_bucket e"
      by (auto simp: wf_pair_def list_all_iff)
  qed
  with assms(1) show ?thesis by (simp add: wf_pair_def sorted_keys_bucket_put)
qed

lemma wf_exchange_put:
  assumes "wf_exchange exchangeBk" and "pair \<noteq> []" and "wf_pair pairBk"
  shows "wf_exchange (bucket_put pair (Sub pairBk) exchangeBk)"
proof -
  let ?P = "\<lambda>(k, e). k \<noteq> [] \<and> (case e of Sub pairBk \<Rightarrow> wf_pair pairBk | Val _ \<Rightarrow> False)"
  have "list_all ?P (bucket_put pair (Sub pairBk) exchangeBk)"
    unfolding list_all_iff
  proof
    fix x assume "x \<in> set (bucket_put pair (Sub pairBk) exchangeBk)"
    with set_bucket_put [of pair "Sub pairBk" exchangeBk]
    have "x = (pair, Sub pairBk) \<or> x \<in> set exchangeBk" by auto
    with assms show "?P x" by (auto simp: wf_exchange_def list_all_iff)
  qed
  with assms(1) show ?thesis by (simp add: wf_exchange_def sorted_keys_bucket_put)
qed

lemma wf_history_put:
  assumes "wf_history b" and "exchange \<noteq> []" and "wf_exchange exchangeBk"
  shows "wf_history (bucket_put exchange (Sub exchangeBk) b)"
proof -
  let ?P = "\<lambda>(k, e). k \<noteq> [] \<and> (case e of Sub exchangeBk \<Rightarrow> wf_exchange exchangeBk | Val _ \<Rightarrow> False)"
  have "list_all ?P (bucket_put exchange (Sub exchangeBk) b)"
    unfolding list_all_iff
  proof
    fix x assume "x \<in> set (bucket_put exchange (Sub exchangeBk) b)"
    with set_bucket_put [of exchange "Sub exchangeBk" b]
    have "x = (exchange, Sub exchangeBk) \<or> x \<in> set b" by auto
    with assms show "?P x" by (auto simp: wf_history_def list_all_iff)
  qed
  with assms(1) show ?thesis by (simp add: wf_history_def sorted_keys_bucket_put)
qed

lemma wf_pair_child: "wf_exchange exchangeBk \<Longrightarrow> wf_pair (child_bucket pair exchangeBk)"
  using wf_exchange_entries(3) [of exchangeBk pair]
  by (auto simp: child_bucket_def wf_pair_Nil split: option.splits entry.splits)

lemma wf_exchange_child: "wf_history b \<Longrightarrow> wf_exchange (child_bucket exchange b)"
  using wf_history_entries(3) [of b exchange]
  by (auto simp: child_bucket_def wf_exchange_Nil split: option.splits entry.splits)

lemma wf_pair_no_bucket:
  assumes "wf_pair pairBk"
  shows "bucket_get key pairBk \<noteq> Some (Sub x)"
proof
  assume "bucket_get key pairBk = Some (Sub x)"
  with assms have "map_of pairBk key = Some (Sub x)"
    by (simp add: wf_pair_def bucket_get_map_of)
  from map_of_SomeD [OF this] assms show False
    by (auto simp: wf_pair_def list_all_iff)
qed

lemma Put_record:
  assumes "wf_pair pairBk" and "length v \<le> MaxValueSize"
  shows "Put (uint64ToBytes t) v pairBk = Inr (bucket_put (uint64ToBytes t) (Val v) pairBk)"
proof -
  have "uint64ToBytes t \<noteq> []" "\<not> MaxKeySize < length (uint64ToBytes t)"
    by (simp_all add: uint64ToBytes_def MaxKeySize_def)
  with assms(2) wf_pair_no_bucket [OF assms(1), of "uint64ToBytes t"] show ?thesis
    by (auto simp: Put_def split: option.splits entry.splits)
qed

lemma Put_wf_pair:
  assumes "wf_pair pairBk"
  shows "wf_pair (case Put (uint64ToBytes t) v pairBk of Inl _ \<Rightarrow> pairBk | Inr pairBk' \<Rightarrow> pairBk')"
  using assms wf_pair_put [OF assms length_uint64ToBytes]
  by (auto simp: Put_def split: option.splits entry.splits)

lemma Put_other_key:
  "key \<noteq> key' \<Longrightarrow>
   map_of (case Put key v pairBk of Inl _ \<Rightarrow> pairBk | Inr pairBk' \<Rightarrow> pairBk') key' =
     map_of pairBk key'"
  by (auto simp: Put_def map_of_bucket_put split: option.splits entry.splits)

lemma store_records_append:
  "store_records c (xs @ ys) pairBk = store_records c ys (store_records c xs pairBk)"
  by (induction xs arbitrary: pairBk) (simp_all add: Let_def)

lemma wf_pair_store_records: "wf_pair pairBk \<Longrightarrow> wf_pair (store_records c hs pairBk)"
  by (induction hs arbitrary: pairBk) (simp_all add: Let_def Put_wf_pair)

lemma store_records_other_key:
  "\<forall>h \<in> set hs. Timestamp h \<noteq> t \<Longrightarrow>
   map_of (store_records c hs pairBk) (uint64ToBytes t) = map_of pairBk (uint64ToBytes t)"
  by (induction hs arbitrary: pairBk)
     (simp_all add: Let_def Put_other_key uint64ToBytes_inj)

lemma store_records_last_write:
  assumes "wf_pair pairBk"
    and "\<forall>h \<in> set later. Timestamp h \<noteq> Timestamp r"
    and "marshal_th c r = Inr js" and "length js \<le> MaxValueSize"
  shows "map_of (store_records c (earlier @ r # later) pairBk) (uint64ToBytes (Timestamp r)) =
           Some (Val js)"
proof -
  let ?pb = "store_records c earlier pairBk"
  have wf: "wf_pair ?pb" using assms(1) by (rule wf_pair_store_records)
  have "store_records c (earlier @ r # later) pairBk =
          store_records c later (bucket_put (uint64ToBytes (Timestamp r)) (Val js) ?pb)"
    by (simp add: store_records_append assms(3) Put_record [OF wf assms(4)])
  then show ?thesis
    by (simp add: store_records_other_key [OF assms(2)] map_of_bucket_put)
qed

lemma wf_exchange_sorted: "wf_exchange b \<Longrightarrow> sorted_keys b"
  by (simp add: wf_exchange_def)

lemma wf_history_sorted: "wf_history b \<Longrightarrow> sorted_keys b"
  by (simp add: wf_history_def)

lemma child_bucket_put_other:
  "name \<noteq> key \<Longrightarrow> child_bucket name (bucket_put key e b) = child_bucket name b"
  by (simp add: child_bucket_def map_of_bucket_put)

lemma store_pairs_Done:
  assumes "wf_exchange exchangeBk" and "list_all (\<lambda>(pair, hs). pair \<noteq> []) dataHistory"
  shows "store_pairs c dataHistory exchangeBk = Done (pairs_after c dataHistory exchangeBk) \<and>
         wf_exchange (pairs_after c dataHistory exchangeBk)"
  using assms
proof (induction dataHistory arbitrary: exchangeBk)
  case Nil
  then show ?case by simp
next
  case (Cons x rest)
  obtain pair hs where x: "x = (pair, hs)" by (cases x)
  from Cons.prems have ne: "pair \<noteq> []" and rest: "list_all (\<lambda>(pair, hs). pair \<noteq> []) rest"
    by (simp_all add: x)
  let ?child = "child_bucket pair exchangeBk"
  let ?eb1 = "bucket_put pair (Sub (store_records c hs ?child)) exchangeBk"
  have cr: "CreateBucketIfNotExists pair exchangeBk = Inr (?child, bucket_put pair (Sub ?child) exchangeBk)"
    using wf_exchange_sorted [OF Cons.prems(1)] wf_exchange_entries(2) [OF Cons.prems(1)] ne
    by (rule CreateBucketIfNotExists_nested)
  have wf1: "wf_exchange ?eb1"
    using Cons.prems(1) ne wf_pair_store_records [OF wf_pair_child [OF Cons.prems(1)]]
    by (rule wf_exchange_put)
  from Cons.IH [OF wf1 rest] show ?case
    by (simp add: x cr put_sub_def bucket_put_twice)
qed

lemma pairs_after_untouched:
  "pair \<notin> fst ` set dataHistory \<Longrightarrow>
   map_of (pairs_after c dataHistory exchangeBk) pair = map_of exchangeBk pair"
  by (induction dataHistory arbitrary: exchangeBk) (auto simp: map_of_bucket_put)

lemma pairs_after_lookup:
  assumes "distinct (map fst dataHistory)" and "(pair, hs) \<in> set dataHistory"
  shows "map_of (pairs_after c dataHistory exchangeBk) pair =
           Some (Sub (store_records c hs (child_bucket pair exchangeBk)))"
  using assms
proof (induction dataHistory arbitrary: exchangeBk)
  case Nil
  then show ?case by simp
next
  case (Cons x rest)
  obtain p1 hs1 where x: "x = (p1, hs1)" by (cases x)
  from Cons.prems have d: "distinct (map fst rest)" and n1: "p1 \<notin> fst ` set rest"
    by (simp_all add: x)
  show ?case
  proof (cases "(pair, hs) = (p1, hs1)")
    case True
    with n1 show ?thesis
      by (simp add: x pairs_after_untouched map_of_bucket_put)
  next
    case False
    with Cons.prems(2) have mem: "(pair, hs) \<in> set rest" by (auto simp: x)
    with n1 have "pair \<noteq> p1" by force
    with Cons.IH [OF d mem] show ?thesis
      by (simp add: x child_bucket_put_other)
  qed
qed

lemma store_exchanges_Done:
  assumes "wf_history b"
    and "list_all (\<lambda>(exchange, dataHistory). exchange \<noteq> [] \<and>
           list_all (\<lambda>(pair, hs). pair \<noteq> []) dataHistory) data"
  shows "store_exchanges c data b = Done (history_after c data b) \<and>
         wf_history (history_after c data b)"
  using assms
proof (induction data arbitrary: b)
  case Nil
  then show ?case by simp
next
  case (Cons x rest)
  obtain exchange dh where x: "x = (exchange, dh)" by (cases x)
  from Cons.prems have ne: "exchange \<noteq> []" and pairs: "list_all (\<lambda>(pair, hs). pair \<noteq> []) dh"
    and rest: "list_all (\<lambda>(exchange, dataHistory). exchange \<noteq> [] \<and>
           list_all (\<lambda>(pair, hs). pair \<noteq> []) dataHistory) rest"
    by (simp_all add: x)
  let ?child = "child_bucket exchange b"
  let ?b1 = "bucket_put exchange (Sub (pairs_after c dh ?child)) b"
  have cr: "CreateBucketIfNotExists exchange b = Inr (?child, bucket_put exchange (Sub ?child) b)"
    using wf_history_sorted [OF Cons.prems(1)] wf_history_entries(2) [OF Cons.prems(1)] ne
    by (rule CreateBucketIfNotExists_nested)
  note sp = store_pairs_Done [OF wf_exchange_child [OF Cons.prems(1)] pairs, of c exchange]
  have wf1: "wf_history ?b1"
    using Cons.prems(1) ne sp [THEN conjunct2] by (rule wf_history_put)
  from Cons.IH [OF wf1 rest] show ?case
    by (simp add: x cr sp [THEN conjunct1] put_sub_def bucket_put_twice)
qed

lemma history_after_untouched:
  "exchange \<notin> fst ` set data \<Longrightarrow> map_of (history_after c data b) exchange = map_of b exchange"
  by (induction data arbitrary: b) (auto simp: map_of_bucket_put)

lemma history_after_lookup:
  assumes "distinct (map fst data)" and "(exchange, dataHistory) \<in> set data"
  shows "map_of (history_after c data b) exchange =
           Some (Sub (pairs_after c dataHistory (child_bucket exchange b)))"
  using assms
proof (induction data arbitrary: b)
  case Nil
  then show ?case by simp
next
  case (Cons x rest)
  obtain e1 dh1 where x: "x = (e1, dh1)" by (cases x)
  from Cons.prems have d: "distinct (map fst rest)" and n1: "e1 \<notin> fst ` set rest"
    by (simp_all add: x)
  show ?case
  proof (cases "(exchange, dataHistory) = (e1, dh1)")
    case True
    with n1 show ?thesis
      by (simp add: x history_after_untouched map_of_bucket_put)
  next
    case False
    with Cons.prems(2) have mem: "(exchange, dataHistory) \<in> set rest" by (auto simp: x)
    with n1 have "exchange \<noteq> e1" by force
    with Cons.IH [OF d mem] show ?thesis
      by (simp add: x child_bucket_put_other)
  qed
qed

lemma StoreTradeHistory_Done:
  assumes "wf_history (TRADE_HISTORY d)"
    and "list_all (\<lambda>(exchange, dataHistory). exchange \<noteq> [] \<and>
           list_all (\<lambda>(pair, hs). pair \<noteq> []) dataHistory) data"
  shows "StoreTradeHistory c None data d =
           Done (None, d\<lparr>TRADE_HISTORY := history_after c data (TRADE_HISTORY d)\<rparr>)"
  using store_exchanges_Done [OF assms, of c]
  by (simp add: StoreTradeHistory_def Update_def)

lemma pair_bucket_map_of:
  assumes "wf_history b"
  shows "pair_bucket b exchange pair =
     (case map_of b exchange of
        Some (Sub exchangeBk) \<Rightarrow>
          (case map_of exchangeBk pair of Some (Sub pairBk) \<Rightarrow> Some pairBk | _ \<Rightarrow> None)
      | _ \<Rightarrow> None)"
proof (cases "map_of b exchange")
  case None
  with assms show ?thesis
    by (simp add: pair_bucket_def bucket_get_map_of wf_history_sorted)
next
  case (Some e)
  show ?thesis
  proof (cases e)
    case (Val v)
    with Some assms show ?thesis
      by (simp add: pair_bucket_def bucket_get_map_of wf_history_sorted)
  next
    case (Sub exchangeBk)
    with Some have "wf_exchange exchangeBk" using wf_history_entries(3) [OF assms] by simp
    with Some Sub assms show ?thesis
      by (simp add: pair_bucket_def bucket_get_map_of wf_history_sorted wf_exchange_sorted)
  qed
qed

lemma in_range_point: "length k = 8 \<Longrightarrow> in_range t t k = (k = uint64ToBytes t)"
  by (auto simp: in_range_key)

lemma records_at_key:
  assumes "wf_pair pairBk"
  shows "records_between c t t pairBk =
           map (\<lambda>(k, e). snd (unmarshal_th c (cursor_value e)))
             (filter (\<lambda>(k, e). k = uint64ToBytes t) pairBk)"
proof -
  from assms have len: "\<And>k e. (k, e) \<in> set pairBk \<Longrightarrow> length k = 8"
    by (auto simp: wf_pair_def list_all_iff)
  have "filter (\<lambda>(k, e). in_range t t k) pairBk = filter (\<lambda>(k, e). k = uint64ToBytes t) pairBk"
    by (rule filter_cong) (auto simp: in_range_point [OF len])
  then show ?thesis by (simp add: records_between_def)
qed

text \<open>
  C5. Let the store have the shape the ledger gives it and let the snapshot name no empty
  exchange or pair. If the records of a pair in the snapshot contain \<open>r\<close> and no later record
  of that pair has the timestamp of \<open>r\<close> (earlier ones may), then after
  \<^verbatim>\<open>StoreTradeHistory\<close> the pair bucket holds exactly one entry under the key of that
  timestamp, the encoding of \<open>r\<close>, and the query for that timestamp returns \<open>r\<close> alone. The
  store keeps its shape, so the same holds for a record written by a later call over one
  written by an earlier call.
\<close>

theorem StoreTradeHistory_last_write_wins:
  assumes "wf_history (TRADE_HISTORY d)"
    and "list_all (\<lambda>(exchange, dataHistory). exchange \<noteq> [] \<and>
           list_all (\<lambda>(pair, hs). pair \<noteq> []) dataHistory) data"
    and "distinct (map fst data)" and "(exchange, dataHistory) \<in> set data"
    and "distinct (map fst dataHistory)" and "(pair, earlier @ r # later) \<in> set dataHistory"
    and "\<forall>h \<in> set later. Timestamp h \<noteq> Timestamp r"
    and "marshal_th c r = Inr js" and "length js \<le> MaxValueSize"
    and "unmarshal_th c js = (None, r)"
  shows "\<exists>d' pairBk.
           StoreTradeHistory c None data d = Done (None, d') \<and>
           wf_history (TRADE_HISTORY d') \<and>
           pair_bucket (TRADE_HISTORY d') exchange pair = Some pairBk \<and>
           filter (\<lambda>(k, e). k = uint64ToBytes (Timestamp r)) pairBk =
             [(uint64ToBytes (Timestamp r), Val js)] \<and>
           records_between c (Timestamp r) (Timestamp r) pairBk = [r]"
proof -
  let ?b = "TRADE_HISTORY d"
  let ?b' = "history_after c data ?b"
  let ?eb = "child_bucket exchange ?b"
  let ?eb' = "pairs_after c dataHistory ?eb"
  let ?pb = "child_bucket pair ?eb"
  let ?pb' = "store_records c (earlier @ r # later) ?pb"
  let ?key = "uint64ToBytes (Timestamp r)"
  note stored = store_exchanges_Done [OF assms(1,2), of c]
  have wf': "wf_history ?b'" using stored by simp
  have st: "StoreTradeHistory c None data d = Done (None, d\<lparr>TRADE_HISTORY := ?b'\<rparr>)"
    using assms(1,2) by (rule StoreTradeHistory_Done)
  have l1: "map_of ?b' exchange = Some (Sub ?eb')"
    using assms(3,4) by (rule history_after_lookup)
  have l2: "map_of ?eb' pair = Some (Sub ?pb')"
    using assms(5,6) by (rule pairs_after_lookup)
  have pb: "pair_bucket ?b' exchange pair = Some ?pb'"
    by (simp add: pair_bucket_map_of [OF wf'] l1 l2)
  have wfe: "wf_exchange ?eb" using assms(1) by (rule wf_exchange_child)
  then have wfp: "wf_pair ?pb" by (rule wf_pair_child)
  then have wfp': "wf_pair ?pb'" by (rule wf_pair_store_records)
  have "map_of ?pb' ?key = Some (Val js)"
    using wfp assms(7,8,9) by (rule store_records_last_write)
  with wfp' have one: "filter (\<lambda>(k, e). k = ?key) ?pb' = [(?key, Val js)]"
    by (simp add: one_entry_per_key wf_pair_def sorted_keys_distinct)
  then have "records_between c (Timestamp r) (Timestamp r) ?pb' = [r]"
    by (simp add: records_at_key [OF wfp'] assms(10))
  with st wf' pb one show ?thesis by simp
qed

text \<open>The key of the last entry of a sorted bucket is the greatest.\<close>

lemma last_key_greatest:
  "sorted_keys b \<Longrightarrow> (k, e) \<in> set b \<Longrightarrow> k \<le> fst (last b)"
proof (induction b)
  case Nil
  then show ?case by simp
next
  case (Cons x b)
  obtain k1 e1 where x: "x = (k1, e1)" by (cases x)
  from Cons.prems have above: "\<forall>(k', e') \<in> set b. k1 < k'" and sb: "sorted_keys b"
    by (simp_all add: x sorted_keys_Cons)
  show ?case
  proof (cases "b = []")
    case True
    with Cons.prems show ?thesis by (simp add: x)
  next
    case False
    then have lb: "last b \<in> set b" by simp
    show ?thesis
    proof (cases "(k, e) \<in> set b")
      case True
      with Cons.IH [OF sb] False show ?thesis by simp
    next
      case nin: False
      with Cons.prems have "k = k1" by (simp add: x)
      moreover from above lb have "k1 < fst (last b)" by (cases "last b") auto
      ultimately show ?thesis using False by simp
    qed
  qed
qed

lemma marshal_plain: "marshal_th plain_codec (trade n t) = Inr (uint64ToBytes t @ [n])"
  by (simp add: plain_codec_def trade_def)

lemma example_names: "binance_id \<noteq> []" "eth_knc \<noteq> []"
  by (simp_all add: binance_id_def eth_knc_def)

text \<open>
  C6. On a store of the shape the ledger gives it, \<^verbatim>\<open>GetLastIDTradeHistory\<close> in a
  transaction that commits returns, for a pair bucket that holds records, the identifier of
  the record under the last key and no error, and no key of the bucket has a greater
  timestamp; for a pair bucket without records it returns the empty string and no error.
  That is also what it returns when the pair bucket does not exist yet and both names are
  not empty, since it creates the bucket.
\<close>

theorem GetLastIDTradeHistory_latest:
  assumes "wf_history (TRADE_HISTORY d)"
  shows "(pair_bucket (TRADE_HISTORY d) exchange pair = Some pairBk \<longrightarrow> pairBk \<noteq> [] \<longrightarrow>
            GetLastIDTradeHistory c None exchange pair d =
              ((ID (snd (unmarshal_th c (cursor_value (snd (last pairBk))))), None), d) \<and>
            (\<forall>(k, e) \<in> set pairBk. \<exists>t latest.
               bytesToUint64 k = Some t \<and> bytesToUint64 (fst (last pairBk)) = Some latest \<and>
               t \<le> latest)) \<and>
         (pair_bucket (TRADE_HISTORY d) exchange pair = Some [] \<longrightarrow>
            GetLastIDTradeHistory c None exchange pair d = (([], None), d)) \<and>
         (pair_bucket (TRADE_HISTORY d) exchange pair = None \<longrightarrow> exchange \<noteq> [] \<longrightarrow> pair \<noteq> [] \<longrightarrow>
            fst (GetLastIDTradeHistory c None exchange pair d) = ([], None))"
proof -
  let ?b = "TRADE_HISTORY d"
  note wf = assms
  have exists: "GetLastIDTradeHistory c None exchange pair d =
      ((case Last pb of None \<Rightarrow> [] | Some (k, v) \<Rightarrow> ID (snd (unmarshal_th c (cursor_value v))), None), d)
      \<and> wf_pair pb"
    if pb: "pair_bucket ?b exchange pair = Some pb" for pb
  proof -
    from pb obtain eb where eb: "map_of ?b exchange = Some (Sub eb)"
      and p: "map_of eb pair = Some (Sub pb)"
      by (auto simp: pair_bucket_map_of [OF wf] split: option.splits entry.splits)
    have wfe: "wf_exchange eb" using wf_history_entries(3) [OF wf eb] .
    have wfp: "wf_pair pb" using wf_exchange_entries(3) [OF wfe p] .
    from map_of_SomeD [OF eb] wf have ne: "exchange \<noteq> []"
      by (auto simp: wf_history_def list_all_iff)
    from map_of_SomeD [OF p] wfe have np: "pair \<noteq> []"
      by (auto simp: wf_exchange_def list_all_iff)
    have ce: "child_bucket exchange ?b = eb" by (simp add: child_bucket_def eb)
    have cp: "child_bucket pair eb = pb" by (simp add: child_bucket_def p)
    have same_e: "bucket_put exchange (Sub eb) ?b = ?b"
      by (rule bucket_put_same) (simp add: bucket_get_map_of wf_history_sorted [OF wf] eb)
    have same_p: "bucket_put pair (Sub pb) eb = eb"
      by (rule bucket_put_same) (simp add: bucket_get_map_of wf_exchange_sorted [OF wfe] p)
    have c1: "CreateBucketIfNotExists exchange ?b = Inr (eb, ?b)"
      using CreateBucketIfNotExists_nested [OF wf_history_sorted [OF wf] wf_history_entries(2) [OF wf] ne]
      by (simp add: ce same_e)
    have c2: "CreateBucketIfNotExists pair eb = Inr (pb, eb)"
      using CreateBucketIfNotExists_nested [OF wf_exchange_sorted [OF wfe] wf_exchange_entries(2) [OF wfe] np]
      by (simp add: cp same_p)
    show ?thesis
      by (simp add: GetLastIDTradeHistory_def Update_def c1 c2 put_sub_def same_e wfp)
  qed
  show ?thesis
  proof (intro conjI impI)
    assume pb: "pair_bucket ?b exchange pair = Some pairBk" and ne: "pairBk \<noteq> []"
    from exists [OF pb] ne
    show "GetLastIDTradeHistory c None exchange pair d =
            ((ID (snd (unmarshal_th c (cursor_value (snd (last pairBk))))), None), d)"
      by (simp add: Last_def split: prod.splits)
    from exists [OF pb] have wfp: "wf_pair pairBk" by simp
    then have sk: "sorted_keys pairBk" and len: "\<And>k e. (k, e) \<in> set pairBk \<Longrightarrow> length k = 8"
      by (auto simp: wf_pair_def list_all_iff)
    from ne have "last pairBk \<in> set pairBk" by simp
    then have "length (fst (last pairBk)) = 8" using len [of "fst (last pairBk)" "snd (last pairBk)"] by simp
    from key_is_encoding [OF this] obtain latest
      where latest: "bytesToUint64 (fst (last pairBk)) = Some latest"
        "uint64ToBytes latest = fst (last pairBk)" by blast
    show "\<forall>(k, e) \<in> set pairBk. \<exists>t latest.
               bytesToUint64 k = Some t \<and> bytesToUint64 (fst (last pairBk)) = Some latest \<and>
               t \<le> latest"
    proof clarify
      fix k e assume mem: "(k, e) \<in> set pairBk"
      from key_is_encoding [OF len [OF mem]] obtain t
        where t: "bytesToUint64 k = Some t" "uint64ToBytes t = k" by blast
      from last_key_greatest [OF sk mem] have "uint64ToBytes t \<le> uint64ToBytes latest"
        by (simp add: t latest)
      then have "t \<le> latest" by (simp add: uint64ToBytes_le)
      with t latest show "\<exists>t latest.
               bytesToUint64 k = Some t \<and> bytesToUint64 (fst (last pairBk)) = Some latest \<and>
               t \<le> latest" by blast
    qed
  next
    assume "pair_bucket ?b exchange pair = Some []"
    from exists [OF this] show "GetLastIDTradeHistory c None exchange pair d = (([], None), d)"
      by (simp add: Last_def)
  next
    assume none: "pair_bucket ?b exchange pair = None" and ne: "exchange \<noteq> []" and np: "pair \<noteq> []"
    let ?eb = "child_bucket exchange ?b"
    have wfe: "wf_exchange ?eb" using wf by (rule wf_exchange_child)
    have c1: "CreateBucketIfNotExists exchange ?b = Inr (?eb, bucket_put exchange (Sub ?eb) ?b)"
      using wf_history_sorted [OF wf] wf_history_entries(2) [OF wf] ne
      by (rule CreateBucketIfNotExists_nested)
    have c2: "CreateBucketIfNotExists pair ?eb =
        Inr (child_bucket pair ?eb, bucket_put pair (Sub (child_bucket pair ?eb)) ?eb)"
      using wf_exchange_sorted [OF wfe] wf_exchange_entries(2) [OF wfe] np
      by (rule CreateBucketIfNotExists_nested)
    have "child_bucket pair ?eb = []"
      using none wf_exchange_entries(4) [OF wfe, of pair]
      by (auto simp: pair_bucket_map_of [OF wf] child_bucket_def split: option.splits entry.splits)
    then show "fst (GetLastIDTradeHistory c None exchange pair d) = ([], None)"
      by (simp add: GetLastIDTradeHistory_def Update_def c1 c2 Last_def)
  qed
qed

lemma store_one_pair:
  "StoreTradeHistory c None [(binance_id, [(eth_knc, hs)])]
     (d\<lparr>TRADE_HISTORY := [(binance_id, Sub [(eth_knc, Sub pairBk)])]\<rparr>) =
   Done (None, d\<lparr>TRADE_HISTORY :=
     [(binance_id, Sub [(eth_knc, Sub (store_records c hs pairBk))])]\<rparr>)"
  using example_names
  by (simp add: StoreTradeHistory_def Update_def CreateBucketIfNotExists_def bucket_get_def
      Seek_def put_sub_def)

lemma uint64ToBytes_nonempty: "uint64ToBytes u \<noteq> []"
  by (simp add: uint64ToBytes_def)

lemma put_example:
  "store_records plain_codec [trade n 2000] [stored_trade 1 1000, stored_trade m 2000, stored_trade 3 3000] =
     [stored_trade 1 1000, stored_trade n 2000, stored_trade 3 3000]"
  by (simp add: marshal_plain stored_trade_def Put_def bucket_get_def Seek_def Let_def
      uint64ToBytes_nonempty uint64ToBytes_less uint64ToBytes_inj length_uint64ToBytes MaxKeySize_def MaxValueSize_def
      trade_def [of n, THEN arg_cong [where f = Timestamp], simplified])

lemma example_db_rewritten: "example_db = rewritten_db 2"
  by (simp add: rewritten_db_def example_db_def)

lemma store_rewritten:
  "StoreTradeHistory plain_codec None [(binance_id, [(eth_knc, [trade n 2000])])] (rewritten_db m) =
     Done (None, rewritten_db n)"
  unfolding rewritten_db_def by (simp only: store_one_pair put_example)

theorem StoreTradeHistory_last_write_wins_witness:
  "wf_history (TRADE_HISTORY example_db) \<and>
   list_all (\<lambda>(exchange, dataHistory). exchange \<noteq> [] \<and>
      list_all (\<lambda>(pair, hs). pair \<noteq> []) dataHistory) rewrite_snapshot \<and>
   distinct (map fst rewrite_snapshot) \<and>
   (binance_id, [(eth_knc, [trade 5 2000, trade 6 2000])]) \<in> set rewrite_snapshot \<and>
   distinct (map fst [(eth_knc, [trade 5 2000, trade 6 2000])]) \<and>
   (eth_knc, [trade 5 2000] @ trade 6 2000 # []) \<in> set [(eth_knc, [trade 5 2000, trade 6 2000])] \<and>
   marshal_th plain_codec (trade 6 2000) = Inr (uint64ToBytes 2000 @ [6]) \<and>
   length (uint64ToBytes 2000 @ [6 :: byte]) \<le> MaxValueSize \<and>
   unmarshal_th plain_codec (uint64ToBytes 2000 @ [6]) = (None, trade 6 2000) \<and>
   (\<exists>d' pairBk.
      StoreTradeHistory plain_codec None rewrite_snapshot example_db = Done (None, d') \<and>
      pair_bucket (TRADE_HISTORY d') binance_id eth_knc = Some pairBk \<and>
      filter (\<lambda>(k, e). k = uint64ToBytes 2000) pairBk = [stored_trade 6 2000] \<and>
      records_between plain_codec 2000 2000 pairBk = [trade 6 2000]) \<and>
   StoreTradeHistory plain_codec None rewrite_snapshot example_db = Done (None, rewritten_db 6) \<and>
   StoreTradeHistory plain_codec None [(binance_id, [(eth_knc, [trade 5 2000])])] example_db =
     Done (None, rewritten_db 5) \<and>
   StoreTradeHistory plain_codec None [(binance_id, [(eth_knc, [trade 6 2000])])] (rewritten_db 5) =
     Done (None, rewritten_db 6)"
proof -
  have h1: "wf_history (TRADE_HISTORY example_db)" by (rule wf_example)
  have h2: "list_all (\<lambda>(exchange, dataHistory). exchange \<noteq> [] \<and>
      list_all (\<lambda>(pair, hs). pair \<noteq> []) dataHistory) rewrite_snapshot"
    by (simp add: rewrite_snapshot_def example_names)
  have h3: "distinct (map fst rewrite_snapshot)"
    and h4: "(binance_id, [(eth_knc, [trade 5 2000, trade 6 2000])]) \<in> set rewrite_snapshot"
    by (simp_all add: rewrite_snapshot_def)
  have h5: "distinct (map fst [(eth_knc, [trade 5 2000, trade 6 2000 :: unit TradeHistory])])"
    and h6: "(eth_knc, [trade 5 2000] @ trade 6 2000 # []) \<in>
              set [(eth_knc, [trade 5 2000, trade 6 2000 :: unit TradeHistory])]"
    by simp_all
  have h7: "\<forall>h \<in> set ([] :: unit TradeHistory list). Timestamp h \<noteq> Timestamp (trade 6 2000)"
    by simp
  have h8: "marshal_th plain_codec (trade 6 2000) = Inr (uint64ToBytes 2000 @ [6])"
    by (rule marshal_plain)
  have h9: "length (uint64ToBytes 2000 @ [6 :: byte]) \<le> MaxValueSize"
    by (simp add: length_uint64ToBytes MaxValueSize_def)
  have h10: "unmarshal_th plain_codec (uint64ToBytes 2000 @ [6]) = (None, trade 6 2000)"
    by (rule unmarshal_plain)
  have ts: "Timestamp (trade 6 2000) = 2000" by (simp add: trade_def)
  from StoreTradeHistory_last_write_wins [OF h1 h2 h3 h4 h5 h6 h7 h8 h9 h10]
  have "\<exists>d' pairBk.
      StoreTradeHistory plain_codec None rewrite_snapshot example_db = Done (None, d') \<and>
      pair_bucket (TRADE_HISTORY d') binance_id eth_knc = Some pairBk \<and>
      filter (\<lambda>(k, e). k = uint64ToBytes 2000) pairBk = [stored_trade 6 2000] \<and>
      records_between plain_codec 2000 2000 pairBk = [trade 6 2000]"
    unfolding ts stored_trade_def by blast
  note concl = this
  have two: "store_records plain_codec [trade 5 2000, trade 6 2000]
      [stored_trade 1 1000, stored_trade 2 2000, stored_trade 3 3000] =
      [stored_trade 1 1000, stored_trade 6 2000, stored_trade 3 3000]"
    using store_records_append [of plain_codec "[trade 5 2000]" "[trade 6 2000]"]
    by (simp only: append_Cons append_Nil put_example)
  have e1: "StoreTradeHistory plain_codec None rewrite_snapshot example_db = Done (None, rewritten_db 6)"
    unfolding rewrite_snapshot_def example_db_def rewritten_db_def
    by (simp only: store_one_pair two)
  have e2: "StoreTradeHistory plain_codec None [(binance_id, [(eth_knc, [trade 5 2000])])] example_db =
     Done (None, rewritten_db 5)"
    unfolding example_db_rewritten by (rule store_rewritten)
  have e3: "StoreTradeHistory plain_codec None [(binance_id, [(eth_knc, [trade 6 2000])])]
     (rewritten_db 5) = Done (None, rewritten_db 6)"
    by (rule store_rewritten)
  show ?thesis by (intro conjI h1 h2 h3 h4 h5 h6 h8 h9 h10 concl e1 e2 e3)
qed



theorem GetLastIDTradeHistory_latest_witness:
  "wf_history (TRADE_HISTORY example_db) \<and>
   pair_bucket (TRADE_HISTORY example_db) binance_id eth_knc =
     Some [stored_trade 1 1000, stored_trade 2 2000, stored_trade 3 3000] \<and>
   GetLastIDTradeHistory plain_codec None binance_id eth_knc example_db = (([3], None), example_db) \<and>
   pair_bucket (TRADE_HISTORY example_db) binance_id knc_eth = None \<and>
   binance_id \<noteq> [] \<and> knc_eth \<noteq> [] \<and>
   fst (GetLastIDTradeHistory plain_codec None binance_id knc_eth example_db) = ([], None)"
proof -
  let ?pb = "[stored_trade 1 1000, stored_trade 2 2000, stored_trade 3 3000]"
  have h1: "wf_history (TRADE_HISTORY example_db)" by (rule wf_example)
  have t: "TRADE_HISTORY example_db = [(binance_id, Sub [(eth_knc, Sub ?pb)])]"
    by (simp add: example_db_def)
  have lt: "\<not> knc_eth < eth_knc" "knc_eth \<noteq> eth_knc" "knc_eth \<noteq> []"
    by (simp_all add: knc_eth_def eth_knc_def)
  have h2: "pair_bucket (TRADE_HISTORY example_db) binance_id eth_knc = Some ?pb"
    by (simp add: t pair_bucket_def bucket_get_def Seek_def)
  have h3: "pair_bucket (TRADE_HISTORY example_db) binance_id knc_eth = None"
    using lt by (auto simp: t pair_bucket_def bucket_get_def Seek_def)
  note T = GetLastIDTradeHistory_latest [OF h1, of binance_id _ _ plain_codec]
  have g1: "GetLastIDTradeHistory plain_codec None binance_id eth_knc example_db =
      (([3], None), example_db)"
    using T [of eth_knc ?pb, THEN conjunct1, rule_format, OF h2, THEN conjunct1]
    by (simp add: stored_trade_def unmarshal_plain trade_def)
  have g2: "fst (GetLastIDTradeHistory plain_codec None binance_id knc_eth example_db) = ([], None)"
    using T [of knc_eth ?pb, THEN conjunct2, THEN conjunct2, rule_format, OF h3 example_names(1) lt(3)] .
  show ?thesis by (intro conjI h1 h2 g1 h3 example_names(1) lt(3) g2)
qed

section \<open>The ledger operations keep the shape of the store\<close>

lemma wf_history_empty_db: "wf_history (TRADE_HISTORY empty_db)"
  by (simp add: empty_db_def wf_history_def sorted_keys_def)

lemma wf_pending_empty_db: "wf_pending c (PENDING_INTERMEDIATE_TX empty_db)"
  by (simp add: empty_db_def wf_pending_def sorted_keys_def)

lemma CreateBucketIfNotExists_cases:
  assumes "sorted_keys b" and "list_all (\<lambda>(k, e). is_bucket e) b"
  shows "(name = [] \<and> CreateBucketIfNotExists name b = Inl ErrBucketNameRequired) \<or>
         (name \<noteq> [] \<and> CreateBucketIfNotExists name b =
            Inr (child_bucket name b, bucket_put name (Sub (child_bucket name b)) b))"
  using CreateBucketIfNotExists_nested [OF assms, of name]
  by (cases "name = []") (simp_all add: CreateBucketIfNotExists_def)

lemma wf_exchange_store_pairs:
  "wf_exchange exchangeBk \<Longrightarrow> store_pairs c dataHistory exchangeBk = Done exchangeBk' \<Longrightarrow>
   wf_exchange exchangeBk'"
proof (induction dataHistory arbitrary: exchangeBk)
  case Nil
  then show ?case by simp
next
  case (Cons x rest)
  obtain pair hs where x: "x = (pair, hs)" by (cases x)
  from CreateBucketIfNotExists_cases [OF wf_exchange_sorted [OF Cons.prems(1)]
      wf_exchange_entries(2) [OF Cons.prems(1)], of pair]
  show ?case
  proof (elim disjE conjE)
    assume "pair = []" "CreateBucketIfNotExists pair exchangeBk = Inl ErrBucketNameRequired"
    with Cons.prems(2) have "store_pairs c rest exchangeBk = Done exchangeBk'"
      by (simp add: x split: if_splits)
    with Cons.IH [OF Cons.prems(1)] show ?thesis by simp
  next
    let ?child = "child_bucket pair exchangeBk"
    let ?eb1 = "bucket_put pair (Sub (store_records c hs ?child)) exchangeBk"
    assume ne: "pair \<noteq> []"
      and cr: "CreateBucketIfNotExists pair exchangeBk = Inr (?child, bucket_put pair (Sub ?child) exchangeBk)"
    have wf1: "wf_exchange ?eb1"
      using Cons.prems(1) ne wf_pair_store_records [OF wf_pair_child [OF Cons.prems(1)]]
      by (rule wf_exchange_put)
    from Cons.prems(2) have "store_pairs c rest ?eb1 = Done exchangeBk'"
      by (simp add: x cr put_sub_def bucket_put_twice)
    with Cons.IH [OF wf1] show ?thesis by simp
  qed
qed

lemma wf_history_store_exchanges:
  "wf_history b \<Longrightarrow> store_exchanges c data b = Done b' \<Longrightarrow> wf_history b'"
proof (induction data arbitrary: b)
  case Nil
  then show ?case by simp
next
  case (Cons x rest)
  obtain exchange dh where x: "x = (exchange, dh)" by (cases x)
  from CreateBucketIfNotExists_cases [OF wf_history_sorted [OF Cons.prems(1)]
      wf_history_entries(2) [OF Cons.prems(1)], of exchange]
  show ?case
  proof (elim disjE conjE)
    assume "exchange = []" "CreateBucketIfNotExists exchange b = Inl ErrBucketNameRequired"
    with Cons.prems(2) have "store_exchanges c rest b = Done b'"
      by (simp add: x split: if_splits)
    with Cons.IH [OF Cons.prems(1)] show ?thesis by simp
  next
    let ?child = "child_bucket exchange b"
    assume ne: "exchange \<noteq> []"
      and cr: "CreateBucketIfNotExists exchange b = Inr (?child, bucket_put exchange (Sub ?child) b)"
    from Cons.prems(2) obtain eb' where sp: "store_pairs c dh ?child = Done eb'"
      and loop: "store_exchanges c rest (bucket_put exchange (Sub eb') b) = Done b'"
      by (auto simp: x cr put_sub_def bucket_put_twice split: outcome.splits)
    have "wf_exchange eb'"
      using wf_exchange_child [OF Cons.prems(1)] sp by (rule wf_exchange_store_pairs)
    with Cons.prems(1) ne have "wf_history (bucket_put exchange (Sub eb') b)"
      by (rule wf_history_put)
    with Cons.IH loop show ?thesis by simp
  qed
qed

lemma wf_history_StoreTradeHistory:
  assumes "wf_history (TRADE_HISTORY d)" and "StoreTradeHistory c commit data d = Done (err, d')"
  shows "wf_history (TRADE_HISTORY d')"
proof (cases "store_exchanges c data (TRADE_HISTORY d)")
  case Panic
  with assms(2) show ?thesis by (simp add: StoreTradeHistory_def)
next
  case (Done b')
  with assms(1) have "wf_history b'" by (rule wf_history_store_exchanges)
  with assms Done show ?thesis
    by (auto simp: StoreTradeHistory_def Update_def split: option.splits)
qed

lemma wf_history_GetLastIDTradeHistory:
  assumes "wf_history (TRADE_HISTORY d)"
    and "GetLastIDTradeHistory c commit exchange pair d = (res, d')"
  shows "wf_history (TRADE_HISTORY d')"
proof -
  let ?b = "TRADE_HISTORY d"
  let ?eb = "child_bucket exchange ?b"
  have wfe: "wf_exchange ?eb" using assms(1) by (rule wf_exchange_child)
  note c1 = CreateBucketIfNotExists_cases [OF wf_history_sorted [OF assms(1)]
      wf_history_entries(2) [OF assms(1)], of exchange]
  note c2 = CreateBucketIfNotExists_cases [OF wf_exchange_sorted [OF wfe]
      wf_exchange_entries(2) [OF wfe], of pair]
  have "wf_history (bucket_put exchange (Sub (bucket_put pair (Sub (child_bucket pair ?eb)) ?eb)) ?b)"
    if "exchange \<noteq> []" "pair \<noteq> []"
    using assms(1) that(1) wf_exchange_put [OF wfe that(2) wf_pair_child [OF wfe]]
    by (rule wf_history_put)
  with c1 c2 assms show ?thesis
    by (auto simp: GetLastIDTradeHistory_def Update_def put_sub_def bucket_put_twice
        split: option.splits)
qed

lemma wf_pending_StorePendingIntermediateTx:
  assumes "wf_pending c (PENDING_INTERMEDIATE_TX d)"
    and "\<And>k. marshal_id c aid = Inr k \<Longrightarrow> unmarshal_id c k = (None, aid)"
    and "\<And>v. marshal_tx c tx = Inr v \<Longrightarrow> fst (unmarshal_tx c v) = None"
    and "StorePendingIntermediateTx c commit aid tx d = (err, d')"
  shows "wf_pending c (PENDING_INTERMEDIATE_TX d')"
proof -
  have "wf_pending c (bucket_put k (Val v) (PENDING_INTERMEDIATE_TX d))"
    if "marshal_id c aid = Inr k" "marshal_tx c tx = Inr v" for k v
    using assms(1) assms(2) [OF that(1)] that(1) assms(3) [OF that(2)] by (rule wf_pending_put)
  with assms(1,4) show ?thesis
    by (auto simp: StorePendingIntermediateTx_def Update_def Put_def
        split: sum.splits option.splits if_splits entry.splits)
qed

lemma wf_pending_RemovePendingIntermediateTx:
  assumes "wf_pending c (PENDING_INTERMEDIATE_TX d)"
    and "RemovePendingIntermediateTx c commit aid d = (err, d')"
  shows "wf_pending c (PENDING_INTERMEDIATE_TX d')"
  using assms wf_pending_del [OF assms(1)]
  by (auto simp: RemovePendingIntermediateTx_def Update_def Delete_def
      split: sum.splits option.splits list.splits entry.splits)

section \<open>Writes and deletes reported as done that did not happen\<close>

lemma example_keys:
  "ToBytes plain_codec example_id < ToBytes plain_codec later_id"
  "ToBytes plain_codec example_id \<noteq> ToBytes plain_codec later_id"
  "ToBytes plain_codec example_id \<noteq> []"
  "length (ToBytes plain_codec example_id) \<le> MaxKeySize"
  by (simp_all add: plain_codec_def example_id_def later_id_def MaxKeySize_def)

text \<open>
  C3. After \<^verbatim>\<open>StoreIntermediateTx\<close> has returned no error, \<^verbatim>\<open>GetIntermedatorTx\<close> on the same
  identifier is to return the entry stored. With a commit that fails it does not:
  \<^verbatim>\<open>StoreIntermediateTx\<close> drops what \<^verbatim>\<open>Update\<close> returns, so it returns no error while the
  store is as before, and \<^verbatim>\<open>GetIntermedatorTx\<close> finds the key of another identifier at the
  seek position and returns the error that asks to try later. With a commit that succeeds
  the same call returns the same and the entry is found.
\<close>

theorem StoreIntermediateTx_nil_without_write:
  "StoreIntermediateTx plain_codec (Some ErrEngineIO) example_id example_tx confirmed_db =
     (None, confirmed_db) \<and>
   GetIntermedatorTx plain_codec example_id confirmed_db =
     ([], Some (ErrorString not_found_msg)) \<and>
   StoreIntermediateTx plain_codec None example_id example_tx confirmed_db =
     (None, confirmed_db\<lparr>INTERMEDIATE_TX :=
        [(ToBytes plain_codec example_id, Val example_tx),
         (ToBytes plain_codec later_id, Val example_tx)]\<rparr>) \<and>
   GetIntermedatorTx plain_codec example_id
     (confirmed_db\<lparr>INTERMEDIATE_TX :=
        [(ToBytes plain_codec example_id, Val example_tx),
         (ToBytes plain_codec later_id, Val example_tx)]\<rparr>) = (example_tx, None)"
proof -
  let ?k = "ToBytes plain_codec example_id" and ?k2 = "ToBytes plain_codec later_id"
  have i: "INTERMEDIATE_TX confirmed_db = [(?k2, Val example_tx)]"
    by (simp add: confirmed_db_def)
  have m: "marshal_tx plain_codec example_tx = Inr example_tx"
    "unmarshal_tx plain_codec v = (None, v)" "zero_tx plain_codec = []" for v
    by (simp_all add: plain_codec_def)
  have len: "length example_tx \<le> MaxValueSize"
    by (simp add: example_tx_def MaxValueSize_def)
  have seek: "Seek ?k [(?k2, Val example_tx)] = [(?k2, Val example_tx)]"
    using example_keys(1) by (simp add: Seek_def)
  have put: "Put ?k example_tx [(?k2, Val example_tx)] =
      Inr [(?k, Val example_tx), (?k2, Val example_tx)]"
    using example_keys len by (simp add: Put_def bucket_get_def seek)
  have s1: "StoreIntermediateTx plain_codec (Some ErrEngineIO) example_id example_tx confirmed_db =
     (None, confirmed_db)"
    by (simp add: StoreIntermediateTx_def StoreIntermediateTx_update_def Update_def m i put)
  have g1: "GetIntermedatorTx plain_codec example_id confirmed_db =
     ([], Some (ErrorString not_found_msg))"
    using example_keys(2)
    by (simp add: GetIntermedatorTx_def View_def i seek isTheSame_eq m)
  have s2: "StoreIntermediateTx plain_codec None example_id example_tx confirmed_db =
     (None, confirmed_db\<lparr>INTERMEDIATE_TX := [(?k, Val example_tx), (?k2, Val example_tx)]\<rparr>)"
    by (simp add: StoreIntermediateTx_def StoreIntermediateTx_update_def Update_def m i put)
  have g2: "GetIntermedatorTx plain_codec example_id
     (confirmed_db\<lparr>INTERMEDIATE_TX := [(?k, Val example_tx), (?k2, Val example_tx)]\<rparr>) =
     (example_tx, None)"
    by (simp add: GetIntermedatorTx_def View_def Seek_def isTheSame_eq m)
  show ?thesis by (intro conjI s1 g1 s2 g2)
qed

text \<open>
  C4. After \<^verbatim>\<open>RemovePendingIntermediateTx\<close> the map of \<^verbatim>\<open>GetPendingIntermediateTXs\<close> is to
  be without the identifier. With a commit that fails it is not:
  \<^verbatim>\<open>RemovePendingIntermediateTx\<close> drops what \<^verbatim>\<open>Update\<close> returns, so it returns no error
  while the entry, stored before by \<^verbatim>\<open>StorePendingIntermediateTx\<close>, is still in the store
  and in the map.
\<close>

theorem RemovePendingIntermediateTx_nil_without_delete:
  "StorePendingIntermediateTx plain_codec None example_id example_tx example_db = (None, pending_db) \<and>
   GetPendingIntermediateTXs plain_codec pending_db = ([example_id \<mapsto> example_tx], None) \<and>
   RemovePendingIntermediateTx plain_codec (Some ErrEngineIO) example_id pending_db =
     (None, pending_db) \<and>
   fst (GetPendingIntermediateTXs plain_codec pending_db) example_id = Some example_tx"
proof -
  have p: "PENDING_INTERMEDIATE_TX example_db = []"
    "PENDING_INTERMEDIATE_TX pending_db = [(example_id, Val example_tx)]"
    by (simp_all add: example_db_def empty_db_def pending_db_def)
  have m: "marshal_id plain_codec example_id = Inr example_id"
    "marshal_tx plain_codec example_tx = Inr example_tx"
    "unmarshal_id plain_codec k = (None, k)" "unmarshal_tx plain_codec k = (None, k)" for k
    by (simp_all add: plain_codec_def)
  have len: "example_id \<noteq> []" "length example_id \<le> MaxKeySize" "length example_tx \<le> MaxValueSize"
    by (simp_all add: example_id_def example_tx_def MaxKeySize_def MaxValueSize_def)
  then have put: "Put example_id example_tx [] = Inr [(example_id, Val example_tx)]"
    by (simp add: Put_def bucket_get_def Seek_def)
  have s: "StorePendingIntermediateTx plain_codec None example_id example_tx example_db =
      (None, pending_db)"
    by (simp add: StorePendingIntermediateTx_def Update_def m p put pending_db_def)
  have g: "GetPendingIntermediateTXs plain_codec pending_db = ([example_id \<mapsto> example_tx], None)"
    by (simp add: GetPendingIntermediateTXs_def View_def p m)
  have r: "RemovePendingIntermediateTx plain_codec (Some ErrEngineIO) example_id pending_db =
      (None, pending_db)"
    by (simp add: RemovePendingIntermediateTx_def Update_def m p Delete_def Seek_def)
  from g have g': "fst (GetPendingIntermediateTXs plain_codec pending_db) example_id = Some example_tx"
    by simp
  show ?thesis by (intro conjI s g r g')
qed

end
